theory Spec2Isabelle
  imports Complex_Main
begin

section \<open>JavaScript strings\<close>

text \<open>
  A JavaScript string is a sequence of UTF-16 code units; \<open>length\<close>, \<open>indexOf\<close>,
  \<open>substring\<close> and indexing all count code units. A code unit is modelled by its
  number, so that every text the extension can receive is a value of the model.
  \<open>u16\<close> turns an ASCII literal into its code units.
\<close>

type_synonym jsstring = "nat list"

definition u16 :: "string \<Rightarrow> jsstring" where
  "u16 s = map of_char s"

definition chLBrace :: nat where "chLBrace = 123"
definition chRBrace :: nat where "chRBrace = 125"
definition chDQuote :: nat where "chDQuote = 34"
definition chSQuote :: nat where "chSQuote = 39"
definition chBackslash :: nat where "chBackslash = 92"
definition chGt :: nat where "chGt = 62"

text \<open>\<^verbatim>\<open>s.startsWith(p, i)\<close>: the pattern occurs in \<open>s\<close> at offset \<open>i\<close>.\<close>

definition startsWithAt :: "jsstring \<Rightarrow> jsstring \<Rightarrow> nat \<Rightarrow> bool" where
  "startsWithAt s p i = (take (length p) (drop i s) = p)"

text \<open>
  \<^verbatim>\<open>s.indexOf(p, from)\<close>: the least offset at or after \<open>from\<close> (clamped to the
  length) where \<open>p\<close> occurs; \<open>None\<close> stands for the result \<open>-1\<close>.
\<close>

definition indexOf :: "jsstring \<Rightarrow> jsstring \<Rightarrow> nat \<Rightarrow> nat option" where
  "indexOf s p from = find (startsWithAt s p) [min from (length s) ..< Suc (length s)]"

text \<open>\<^verbatim>\<open>s.lastIndexOf(p, from)\<close>: the greatest offset at or before \<open>from\<close> where \<open>p\<close> occurs.\<close>

definition lastIndexOf :: "jsstring \<Rightarrow> jsstring \<Rightarrow> nat \<Rightarrow> nat option" where
  "lastIndexOf s p from = find (startsWithAt s p) (rev [0 ..< Suc (min from (length s))])"

text \<open>
  \<^verbatim>\<open>s.substring(a, b)\<close>: both arguments are clamped to the length and swapped when
  \<open>a > b\<close>.
\<close>

definition substring :: "jsstring \<Rightarrow> nat \<Rightarrow> nat \<Rightarrow> jsstring" where
  "substring s a b =
     (let a' = min a (length s); b' = min b (length s);
          lo = min a' b'; hi = max a' b'
      in take (hi - lo) (drop lo s))"

definition includesStr :: "jsstring \<Rightarrow> jsstring \<Rightarrow> bool" where
  "includesStr s p = (indexOf s p 0 \<noteq> None)"

text \<open>
  \<^verbatim>\<open>s.replace(/p/g, r)\<close> for a literal, non-empty pattern \<open>p\<close>: every occurrence,
  scanning from the left and resuming after each replaced occurrence.
\<close>

fun replaceAll :: "jsstring \<Rightarrow> jsstring \<Rightarrow> jsstring \<Rightarrow> jsstring" where
  "replaceAll p r [] = []"
| "replaceAll p r (c # cs) =
     (if p \<noteq> [] \<and> take (length p) (c # cs) = p
      then r @ replaceAll p r (drop (length p - 1) cs)
      else c # replaceAll p r cs)"

section \<open>The balanced-brace scan\<close>

text \<open>
  The inner \<^verbatim>\<open>for (let i = jsonStart; i < text.length; i++)\<close> loop of both marker
  families of \<^verbatim>\<open>parseImageTags\<close>. The first argument is the text from offset \<open>i\<close>
  on; \<open>None\<close> is \<^verbatim>\<open>jsonEnd === -1\<close> after the loop.
\<close>

fun scanBraces :: "jsstring \<Rightarrow> nat \<Rightarrow> int \<Rightarrow> bool \<Rightarrow> bool \<Rightarrow> nat option" where
  "scanBraces [] i braceCount inString escapeNext = None"
| "scanBraces (c # cs) i braceCount inString escapeNext =
     (if escapeNext then scanBraces cs (Suc i) braceCount inString False
      else if c = chBackslash \<and> inString then scanBraces cs (Suc i) braceCount inString True
      else if c = chDQuote then scanBraces cs (Suc i) braceCount (\<not> inString) False
      else if \<not> inString then
        (if c = chLBrace then scanBraces cs (Suc i) (braceCount + 1) inString False
         else if c = chRBrace then
           (if braceCount - 1 = 0 then Some (Suc i)
            else scanBraces cs (Suc i) (braceCount - 1) inString False)
         else scanBraces cs (Suc i) braceCount inString False)
      else scanBraces cs (Suc i) braceCount inString False)"

definition findJsonEnd :: "jsstring \<Rightarrow> nat \<Rightarrow> nat option" where
  "findJsonEnd text jsonStart = scanBraces (drop jsonStart text) jsonStart 0 False False"

section \<open>The source attribute\<close>

text \<open>
  \<^verbatim>\<open>fullImgTag.match(/src\s*=\s*["']?([^"'\s>]+)/i)\<close>. \<open>isSpace\<close> is the class
  \<^verbatim>\<open>\s\<close> of ECMAScript. Without the \<^verbatim>\<open>u\<close> flag, ignoring case never maps a
  code unit above 127 to an ASCII letter, so \<^verbatim>\<open>src\<close> matches the six ASCII
  letters only. Neither \<^verbatim>\<open>=\<close> nor a quote nor a character of the captured class is
  white space, so the greedy quantifiers never give back a character that lets
  a later part match: an attempt at a fixed offset succeeds exactly when the
  straight reading below does, and the engine tries the offsets from the left.
\<close>

definition isSpace :: "nat \<Rightarrow> bool" where
  "isSpace c = ((9 \<le> c \<and> c \<le> 13) \<or> c = 32 \<or> c = 160 \<or> c = 5760
                \<or> (8192 \<le> c \<and> c \<le> 8202) \<or> c = 8232 \<or> c = 8233 \<or> c = 8239
                \<or> c = 8287 \<or> c = 12288 \<or> c = 65279)"

definition srcChar :: "nat \<Rightarrow> bool" where
  "srcChar c = (c \<noteq> chDQuote \<and> c \<noteq> chSQuote \<and> \<not> isSpace c \<and> c \<noteq> chGt)"

definition srcMatchHere :: "jsstring \<Rightarrow> jsstring option" where
  "srcMatchHere s =
     (case s of
        c1 # c2 # c3 # r \<Rightarrow>
          if (c1 = 115 \<or> c1 = 83) \<and> (c2 = 114 \<or> c2 = 82) \<and> (c3 = 99 \<or> c3 = 67) then
            (case dropWhile isSpace r of
               e # r2 \<Rightarrow>
                 if e = 61 then
                   (let r3 = dropWhile isSpace r2;
                        r4 = (case r3 of
                                q # r' \<Rightarrow> if q = chDQuote \<or> q = chSQuote then r' else r3
                              | [] \<Rightarrow> r3);
                        v = takeWhile srcChar r4
                    in if v \<noteq> [] then Some v else None)
                 else None
             | [] \<Rightarrow> None)
          else None
      | _ \<Rightarrow> None)"

fun srcMatch :: "jsstring \<Rightarrow> jsstring option" where
  "srcMatch [] = None"
| "srcMatch (c # cs) =
     (case srcMatchHere (c # cs) of Some v \<Rightarrow> Some v | None \<Rightarrow> srcMatch cs)"

section \<open>JSON.parse\<close>

text \<open>
  The values \<^verbatim>\<open>JSON.parse\<close> returns. A number keeps the exact value of its literal,
  \<open>JNum neg m e\<close> for \<open>(-1)\<^sup>n\<^sup>e\<^sup>g \<times> m \<times> 10\<^sup>e\<close>; the only thing the extension
  observes of a number is whether the double it rounds to is zero.
\<close>

datatype json =
    JNull
  | JBool bool
  | JNum bool nat int
  | JStr jsstring
  | JArr "json list"
  | JObj "(jsstring \<times> json) list"

text \<open>
  \<open>SyntaxError\<close> is the exception of \<^verbatim>\<open>JSON.parse\<close>. The parser below descends
  with a counter that bounds the depth of its calls; \<open>OutOfFuel\<close> reports that
  the counter ran out, so that no such run is mistaken for a syntax error.
\<close>

datatype 'a parsed = OutOfFuel | SyntaxError | Parsed 'a

definition isJsonWs :: "nat \<Rightarrow> bool" where
  "isJsonWs c = (c = 32 \<or> c = 9 \<or> c = 10 \<or> c = 13)"

definition isDigit :: "nat \<Rightarrow> bool" where
  "isDigit c = (48 \<le> c \<and> c \<le> 57)"

definition hexVal :: "nat \<Rightarrow> nat option" where
  "hexVal c =
     (if 48 \<le> c \<and> c \<le> 57 then Some (c - 48)
      else if 97 \<le> c \<and> c \<le> 102 then Some (c - 87)
      else if 65 \<le> c \<and> c \<le> 70 then Some (c - 55)
      else None)"

definition hex4 :: "nat \<Rightarrow> nat \<Rightarrow> nat \<Rightarrow> nat \<Rightarrow> nat option" where
  "hex4 a b c d =
     (case (hexVal a, hexVal b, hexVal c, hexVal d) of
        (Some x, Some y, Some z, Some w) \<Rightarrow> Some (((x * 16 + y) * 16 + z) * 16 + w)
      | _ \<Rightarrow> None)"

text \<open>
  The characters of a string literal after its opening quote: the decoded
  string (accumulated in reverse) and the text after the closing quote.
\<close>

fun parseStringBody :: "jsstring \<Rightarrow> jsstring \<Rightarrow> (jsstring \<times> jsstring) option" where
  "parseStringBody acc [] = None"
| "parseStringBody acc [c] = (if c = chDQuote then Some (rev acc, []) else None)"
| "parseStringBody acc (c # e # r) =
     (if c = chDQuote then Some (rev acc, e # r)
      else if c = chBackslash then
        (if e = chDQuote then parseStringBody (34 # acc) r
         else if e = chBackslash then parseStringBody (92 # acc) r
         else if e = 47 then parseStringBody (47 # acc) r
         else if e = 98 then parseStringBody (8 # acc) r
         else if e = 102 then parseStringBody (12 # acc) r
         else if e = 110 then parseStringBody (10 # acc) r
         else if e = 114 then parseStringBody (13 # acc) r
         else if e = 116 then parseStringBody (9 # acc) r
         else if e = 117 then
           (case r of
              h1 # h2 # h3 # h4 # r' \<Rightarrow>
                (case hex4 h1 h2 h3 h4 of
                   Some u \<Rightarrow> parseStringBody (u # acc) r'
                 | None \<Rightarrow> None)
            | _ \<Rightarrow> None)
         else None)
      else if c < 32 then None
      else parseStringBody (c # acc) (e # r))"

definition digitsVal :: "jsstring \<Rightarrow> nat" where
  "digitsVal ds = foldl (\<lambda>a c. 10 * a + (c - 48)) 0 ds"

text \<open>
  A number literal: \<^verbatim>\<open>-? (0 | [1-9][0-9]*) (.[0-9]+)? ([eE][+-]?[0-9]+)?\<close>; the
  argument starts at the sign or the first digit.
\<close>

definition parseNumber :: "jsstring \<Rightarrow> (json \<times> jsstring) option" where
  "parseNumber s =
     (let neg = (case s of c # _ \<Rightarrow> c = 45 | [] \<Rightarrow> False);
          s1 = (if neg then tl s else s);
          ip = (case s1 of c # _ \<Rightarrow> if c = 48 then [48] else takeWhile isDigit s1 | [] \<Rightarrow> []);
          s2 = drop (length ip) s1;
          hasFrac = (case s2 of c # _ \<Rightarrow> c = 46 | [] \<Rightarrow> False);
          fp = (if hasFrac then takeWhile isDigit (tl s2) else []);
          s3 = (if hasFrac then drop (Suc (length fp)) s2 else s2);
          hasExp = (case s3 of c # _ \<Rightarrow> c = 101 \<or> c = 69 | [] \<Rightarrow> False);
          s4 = (if hasExp then tl s3 else s3);
          expNeg = (hasExp \<and> (case s4 of c # _ \<Rightarrow> c = 45 | [] \<Rightarrow> False));
          expSigned = (hasExp \<and> (case s4 of c # _ \<Rightarrow> c = 45 \<or> c = 43 | [] \<Rightarrow> False));
          s5 = (if expSigned then tl s4 else s4);
          ep = (if hasExp then takeWhile isDigit s5 else []);
          s6 = drop (length ep) s5;
          ex = (if expNeg then - int (digitsVal ep) else int (digitsVal ep))
      in if ip = [] \<or> (hasFrac \<and> fp = []) \<or> (hasExp \<and> ep = []) then None
         else Some (JNum neg (digitsVal (ip @ fp)) (ex - int (length fp)), s6))"

fun parseValue :: "nat \<Rightarrow> jsstring \<Rightarrow> (json \<times> jsstring) parsed"
  and parseElements :: "nat \<Rightarrow> json list \<Rightarrow> jsstring \<Rightarrow> (json \<times> jsstring) parsed"
  and parseMembers :: "nat \<Rightarrow> (jsstring \<times> json) list \<Rightarrow> jsstring \<Rightarrow> (json \<times> jsstring) parsed"
where
  "parseValue 0 s = OutOfFuel"
| "parseValue (Suc n) s =
     (case dropWhile isJsonWs s of
        [] \<Rightarrow> SyntaxError
      | c # cs \<Rightarrow>
          if c = chLBrace then
            (case dropWhile isJsonWs cs of
               [] \<Rightarrow> SyntaxError
             | c2 # r \<Rightarrow> if c2 = chRBrace then Parsed (JObj [], r) else parseMembers n [] (c2 # r))
          else if c = 91 then
            (case dropWhile isJsonWs cs of
               [] \<Rightarrow> SyntaxError
             | c2 # r \<Rightarrow> if c2 = 93 then Parsed (JArr [], r) else parseElements n [] (c2 # r))
          else if c = chDQuote then
            (case parseStringBody [] cs of
               Some (str, r) \<Rightarrow> Parsed (JStr str, r)
             | None \<Rightarrow> SyntaxError)
          else if c = 45 \<or> isDigit c then
            (case parseNumber (c # cs) of Some vr \<Rightarrow> Parsed vr | None \<Rightarrow> SyntaxError)
          else if take 4 (c # cs) = u16 ''true'' then Parsed (JBool True, drop 4 (c # cs))
          else if take 5 (c # cs) = u16 ''false'' then Parsed (JBool False, drop 5 (c # cs))
          else if take 4 (c # cs) = u16 ''null'' then Parsed (JNull, drop 4 (c # cs))
          else SyntaxError)"
| "parseElements 0 acc s = OutOfFuel"
| "parseElements (Suc n) acc s =
     (case parseValue n s of
        OutOfFuel \<Rightarrow> OutOfFuel
      | SyntaxError \<Rightarrow> SyntaxError
      | Parsed (v, r) \<Rightarrow>
          (case dropWhile isJsonWs r of
             [] \<Rightarrow> SyntaxError
           | c # r' \<Rightarrow>
               if c = 44 then parseElements n (acc @ [v]) r'
               else if c = 93 then Parsed (JArr (acc @ [v]), r')
               else SyntaxError))"
| "parseMembers 0 acc s = OutOfFuel"
| "parseMembers (Suc n) acc s =
     (case dropWhile isJsonWs s of
        [] \<Rightarrow> SyntaxError
      | c # cs \<Rightarrow>
          if c \<noteq> chDQuote then SyntaxError
          else
            (case parseStringBody [] cs of
               None \<Rightarrow> SyntaxError
             | Some (k, r) \<Rightarrow>
                 (case dropWhile isJsonWs r of
                    [] \<Rightarrow> SyntaxError
                  | c2 # r2 \<Rightarrow>
                      if c2 \<noteq> 58 then SyntaxError
                      else
                        (case parseValue n r2 of
                           OutOfFuel \<Rightarrow> OutOfFuel
                         | SyntaxError \<Rightarrow> SyntaxError
                         | Parsed (v, r3) \<Rightarrow>
                             (case dropWhile isJsonWs r3 of
                                [] \<Rightarrow> SyntaxError
                              | c3 # r4 \<Rightarrow>
                                  if c3 = 44 then parseMembers n (acc @ [(k, v)]) r4
                                  else if c3 = chRBrace then Parsed (JObj (acc @ [(k, v)]), r4)
                                  else SyntaxError)))))"

text \<open>
  \<^verbatim>\<open>JSON.parse(s)\<close>: one value, white space around it, nothing else. Every call
  of the parser that goes one level down has either consumed a character or
  follows a call that did, so twice the length bounds the depth.
\<close>

definition jsonParse :: "jsstring \<Rightarrow> json parsed" where
  "jsonParse s =
     (case parseValue (2 * length s + 2) s of
        OutOfFuel \<Rightarrow> OutOfFuel
      | SyntaxError \<Rightarrow> SyntaxError
      | Parsed (v, r) \<Rightarrow> if dropWhile isJsonWs r = [] then Parsed v else SyntaxError)"

text \<open>
  \<^verbatim>\<open>data.key\<close> on a parsed value other than \<^verbatim>\<open>null\<close>: \<open>None\<close> is
  \<^verbatim>\<open>undefined\<close>. Of a repeated key the last member wins. None of the keys the
  scanner reads is a property of a prototype.
\<close>

definition getProp :: "json \<Rightarrow> jsstring \<Rightarrow> json option" where
  "getProp data key = (case data of JObj kvs \<Rightarrow> map_of (rev kvs) key | _ \<Rightarrow> None)"

text \<open>
  Truthiness. A number is falsy when it is zero as a double: its exact value
  is zero or rounds to zero, which is the case from \<open>2\<^sup>-\<^sup>1\<^sup>0\<^sup>7\<^sup>5\<close> downwards.
\<close>

definition numNonzero :: "nat \<Rightarrow> int \<Rightarrow> bool" where
  "numNonzero m e = (if 0 \<le> e then m \<noteq> 0 else 10 ^ nat (- e) < m * 2 ^ 1075)"

fun truthy :: "json \<Rightarrow> bool" where
  "truthy JNull = False"
| "truthy (JBool b) = b"
| "truthy (JNum neg m e) = numNonzero m e"
| "truthy (JStr s) = (s \<noteq> [])"
| "truthy (JArr xs) = True"
| "truthy (JObj kvs) = True"

text \<open>\<^verbatim>\<open>x || d\<close> where \<open>x\<close> may be \<^verbatim>\<open>undefined\<close>.\<close>

definition orElse :: "json option \<Rightarrow> json \<Rightarrow> json" where
  "orElse x d = (case x of Some v \<Rightarrow> if truthy v then v else d | None \<Rightarrow> d)"

section \<open>The scanner\<close>

text \<open>
  An entry of the array \<^verbatim>\<open>tags\<close>. \<open>existingSrc\<close> is \<open>None\<close> both for \<^verbatim>\<open>null\<close>
  (a markup tag without a path) and for a legacy tag, which has no such field.
\<close>

record tag =
  fullMatch :: jsstring
  index :: nat
  style :: json
  prompt :: json
  aspectRatio :: json
  imageSize :: json
  quality :: json
  isNewFormat :: bool
  existingSrc :: "jsstring option"

record options =
  checkExistence :: bool
  forceAll :: bool

text \<open>
  What \<^verbatim>\<open>fetch(path, { method: 'HEAD' })\<close> does: it resolves to a response, whose
  \<^verbatim>\<open>ok\<close> flag says whether the status is in 200..299, or it rejects. The network
  is a parameter of the scanner: the outcome of the \<open>k\<close>-th request of a scan
  for a path.
\<close>

datatype fetchOutcome = Response bool | NetworkError

type_synonym fetcher = "nat \<Rightarrow> jsstring \<Rightarrow> fetchOutcome"

definition checkFileExists :: "fetchOutcome \<Rightarrow> bool" where
  "checkFileExists outcome = (case outcome of Response ok \<Rightarrow> ok | NetworkError \<Rightarrow> False)"

definition imgTagMarker :: jsstring where
  "imgTagMarker = u16 ''data-iig-instruction=''"

definition legacyMarker :: jsstring where
  "legacyMarker = u16 ''[IMG:GEN:''"

definition hasMarker :: "jsstring \<Rightarrow> bool" where
  "hasMarker srcValue = (includesStr srcValue (u16 ''[IMG:GEN]'') \<or> includesStr srcValue (u16 ''[IMG:''))"

definition hasErrorImage :: "jsstring \<Rightarrow> bool" where
  "hasErrorImage srcValue = includesStr srcValue (u16 ''error.svg'')"

definition hasPath :: "jsstring \<Rightarrow> bool" where
  "hasPath srcValue = (srcValue \<noteq> [] \<and> startsWithAt srcValue (u16 ''/'') 0 \<and> length srcValue > 5)"

text \<open>
  The decision between the extraction of \<^verbatim>\<open>srcValue\<close> and the \<^verbatim>\<open>try\<close> block of the
  markup family: whether \<^verbatim>\<open>needsGeneration\<close> is set when control reaches the
  \<^verbatim>\<open>try\<close> (every other path is \<^verbatim>\<open>searchPos = imgEnd; continue\<close>), together with the
  paths probed so far.
\<close>

definition needsGeneration ::
  "fetcher \<Rightarrow> options \<Rightarrow> jsstring \<Rightarrow> jsstring list \<Rightarrow> bool \<times> jsstring list" where
  "needsGeneration fetchHead opts srcValue probes =
     (if hasErrorImage srcValue \<and> \<not> forceAll opts then (False, probes)
      else if forceAll opts then (True, probes)
      else if hasMarker srcValue \<or> srcValue = [] then (True, probes)
      else if hasPath srcValue \<and> checkExistence opts then
        (\<not> checkFileExists (fetchHead (length probes) srcValue), probes @ [srcValue])
      else if hasPath srcValue then (False, probes)
      else (False, probes))"

definition decodeEntities :: "jsstring \<Rightarrow> jsstring" where
  "decodeEntities s =
     replaceAll (u16 ''&amp;'') (u16 ''&'')
       (replaceAll (u16 ''&#34;'') [chDQuote]
          (replaceAll (u16 ''&#39;'') [chSQuote]
             (replaceAll (u16 ''&apos;'') [chSQuote]
                (replaceAll (u16 ''&quot;'') [chDQuote] s))))"

text \<open>
  The object literal of \<^verbatim>\<open>tags.push\<close>. Reading a property of \<^verbatim>\<open>null\<close> throws, which
  the enclosing \<^verbatim>\<open>catch\<close> turns into a dropped tag.
\<close>

definition makeTag :: "json \<Rightarrow> jsstring \<Rightarrow> nat \<Rightarrow> bool \<Rightarrow> jsstring option \<Rightarrow> tag option" where
  "makeTag data fm idx isNew src =
     (if data = JNull then None
      else Some \<lparr>fullMatch = fm, index = idx,
                 style = orElse (getProp data (u16 ''style'')) (JStr []),
                 prompt = orElse (getProp data (u16 ''prompt'')) (JStr []),
                 aspectRatio = orElse (getProp data (u16 ''aspect_ratio''))
                                 (orElse (getProp data (u16 ''aspectRatio'')) JNull),
                 imageSize = orElse (getProp data (u16 ''image_size''))
                               (orElse (getProp data (u16 ''imageSize'')) JNull),
                 quality = orElse (getProp data (u16 ''quality'')) JNull,
                 isNewFormat = isNew, existingSrc = src\<rparr>)"

definition parseTag :: "jsstring \<Rightarrow> jsstring \<Rightarrow> nat \<Rightarrow> bool \<Rightarrow> jsstring option \<Rightarrow> tag option" where
  "parseTag normalizedJson fm idx isNew src =
     (case jsonParse normalizedJson of
        Parsed data \<Rightarrow> makeTag data fm idx isNew src
      | _ \<Rightarrow> None)"

text \<open>
  One pass through the body of a \<^verbatim>\<open>while (true)\<close> loop: \<open>Break\<close>, or \<^verbatim>\<open>continue\<close>
  (also by reaching the end of the body) with the new search position and the
  tag pushed, if any.
\<close>

datatype iter = Break | Continue nat "tag option"

definition markupIter ::
  "fetcher \<Rightarrow> options \<Rightarrow> jsstring \<Rightarrow> nat \<Rightarrow> jsstring list \<Rightarrow> iter \<times> jsstring list" where
  "markupIter fetchHead opts text searchPos probes =
     (case indexOf text imgTagMarker searchPos of
        None \<Rightarrow> (Break, probes)
      | Some markerPos \<Rightarrow>
          (case lastIndexOf text (u16 ''<img'') markerPos of
             None \<Rightarrow> (Continue (markerPos + 1) None, probes)
           | Some imgStart \<Rightarrow>
               if markerPos - imgStart > 500 then (Continue (markerPos + 1) None, probes)
               else
                 (let afterMarker = markerPos + length imgTagMarker in
                  case indexOf text [chLBrace] afterMarker of
                    None \<Rightarrow> (Continue (markerPos + 1) None, probes)
                  | Some jsonStart \<Rightarrow>
                      if jsonStart > afterMarker + 10 then (Continue (markerPos + 1) None, probes)
                      else
                        (case findJsonEnd text jsonStart of
                           None \<Rightarrow> (Continue (markerPos + 1) None, probes)
                         | Some jsonEnd \<Rightarrow>
                             (case indexOf text [chGt] jsonEnd of
                                None \<Rightarrow> (Continue (markerPos + 1) None, probes)
                              | Some gtPos \<Rightarrow>
                                  (let imgEnd = gtPos + 1;
                                       fullImgTag = substring text imgStart imgEnd;
                                       instructionJson = substring text jsonStart jsonEnd;
                                       srcValue = (case srcMatch fullImgTag of
                                                     Some v \<Rightarrow> v | None \<Rightarrow> []);
                                       (needs, probes') =
                                          needsGeneration fetchHead opts srcValue probes
                                   in if \<not> needs then (Continue imgEnd None, probes')
                                      else
                                        (Continue imgEnd
                                           (parseTag (decodeEntities instructionJson) fullImgTag
                                              imgStart True
                                              (if hasPath srcValue then Some srcValue else None)),
                                         probes')))))))"

definition legacyIter :: "jsstring \<Rightarrow> nat \<Rightarrow> iter" where
  "legacyIter text searchStart =
     (case indexOf text legacyMarker searchStart of
        None \<Rightarrow> Break
      | Some markerIndex \<Rightarrow>
          (let jsonStart = markerIndex + length legacyMarker in
           case findJsonEnd text jsonStart of
             None \<Rightarrow> Continue jsonStart None
           | Some jsonEnd \<Rightarrow>
               (let jsonStr = substring text jsonStart jsonEnd;
                    afterJson = substring text jsonEnd (length text)
                in if \<not> startsWithAt afterJson (u16 '']'') 0 then Continue jsonEnd None
                   else
                     (let tagOnly = substring text markerIndex (jsonEnd + 1)
                      in Continue (jsonEnd + 1)
                           (parseTag (replaceAll [chSQuote] [chDQuote] jsonStr) tagOnly
                              markerIndex False None)))))"

text \<open>
  The two loops run on the iterations above. Their termination rests on the
  bounds of \<open>indexOf\<close> and of the brace scan: every iteration that continues
  moves the search position forward, and never beyond the end of the text.
\<close>

lemma startsWithAt_bound: "startsWithAt s p i \<Longrightarrow> p \<noteq> [] \<Longrightarrow> i + length p \<le> length s"
  unfolding startsWithAt_def
proof -
  assume a: "take (length p) (drop i s) = p" and ne: "p \<noteq> []"
  have "length (take (length p) (drop i s)) = length p" using a by simp
  then have "min (length p) (length s - i) = length p" by simp
  moreover have "0 < length p" using ne by simp
  ultimately show ?thesis by linarith
qed

lemma find_Some_mem: "find P xs = Some x \<Longrightarrow> x \<in> set xs \<and> P x"
  by (induction xs) (auto split: if_splits)

lemma indexOf_Some:
  assumes "indexOf s p from = Some i"
  shows "min from (length s) \<le> i \<and> i \<le> length s \<and> startsWithAt s p i"
proof -
  from assms have "i \<in> set [min from (length s) ..< Suc (length s)] \<and> startsWithAt s p i"
    unfolding indexOf_def by (rule find_Some_mem)
  then show ?thesis by auto
qed

lemma indexOf_Some_ne:
  assumes "indexOf s p from = Some i" "p \<noteq> []"
  shows "from \<le> i \<and> i + length p \<le> length s"
proof -
  from indexOf_Some[OF assms(1)] have a: "min from (length s) \<le> i" and b: "startsWithAt s p i"
    by auto
  from startsWithAt_bound[OF b assms(2)] have c: "i + length p \<le> length s" .
  moreover have "0 < length p" using assms(2) by simp
  ultimately have "i < length s" by linarith
  with a have "from \<le> i" by (simp add: min_def split: if_splits)
  with c show ?thesis by simp
qed

lemma scanBraces_bounds:
  "scanBraces cs i bc ins esc = Some e \<Longrightarrow> i < e \<and> e \<le> i + length cs"
proof (induction cs arbitrary: i bc ins esc)
  case Nil
  then show ?case by simp
next
  case (Cons c cs)
  from Cons.prems show ?case
    by (auto split: if_splits dest!: Cons.IH)
qed

lemma findJsonEnd_bounds:
  "findJsonEnd text js = Some e \<Longrightarrow> js < e \<and> e \<le> length text"
  unfolding findJsonEnd_def by (drule scanBraces_bounds) auto

lemma imgTagMarker_len: "length imgTagMarker = 21"
  by (simp add: imgTagMarker_def u16_def)

lemma legacyMarker_len: "length legacyMarker = 9"
  by (simp add: legacyMarker_def u16_def)

lemma markupIter_advances:
  assumes "markupIter fetchHead opts text searchPos probes = (Continue p t, probes')"
  shows "searchPos < p \<and> p \<le> length text"
proof -
  from assms obtain markerPos where m: "indexOf text imgTagMarker searchPos = Some markerPos"
    unfolding markupIter_def by (auto split: option.splits)
  have ne: "imgTagMarker \<noteq> []" using imgTagMarker_len by auto
  from indexOf_Some_ne[OF m ne]
  have mp: "searchPos \<le> markerPos" "markerPos < length text"
    by (auto simp: imgTagMarker_len)
  have "p = markerPos + 1 \<or>
        (\<exists>jsonStart jsonEnd gtPos.
            indexOf text [chLBrace] (markerPos + length imgTagMarker) = Some jsonStart
          \<and> findJsonEnd text jsonStart = Some jsonEnd
          \<and> indexOf text [chGt] jsonEnd = Some gtPos \<and> p = gtPos + 1)"
    using assms m unfolding markupIter_def
    by (auto simp: Let_def split: option.splits if_splits prod.splits)
  then show ?thesis
  proof
    assume "p = markerPos + 1"
    with mp show ?thesis by simp
  next
    assume "\<exists>jsonStart jsonEnd gtPos.
            indexOf text [chLBrace] (markerPos + length imgTagMarker) = Some jsonStart
          \<and> findJsonEnd text jsonStart = Some jsonEnd
          \<and> indexOf text [chGt] jsonEnd = Some gtPos \<and> p = gtPos + 1"
    then obtain jsonStart jsonEnd gtPos where
      js: "indexOf text [chLBrace] (markerPos + length imgTagMarker) = Some jsonStart"
      and je: "findJsonEnd text jsonStart = Some jsonEnd"
      and gp: "indexOf text [chGt] jsonEnd = Some gtPos" and p: "p = gtPos + 1"
      by blast
    from indexOf_Some_ne[OF js] have "markerPos \<le> jsonStart" by simp
    moreover from findJsonEnd_bounds[OF je] have "jsonStart < jsonEnd" by simp
    moreover from indexOf_Some_ne[OF gp] have "jsonEnd \<le> gtPos" "gtPos + 1 \<le> length text"
      by simp_all
    ultimately show ?thesis using mp p by simp
  qed
qed

lemma legacyIter_advances:
  assumes "legacyIter text searchStart = Continue p t"
  shows "searchStart < p \<and> p \<le> length text"
proof -
  from assms obtain markerIndex where m: "indexOf text legacyMarker searchStart = Some markerIndex"
    unfolding legacyIter_def by (auto split: option.splits)
  have ne: "legacyMarker \<noteq> []" using legacyMarker_len by auto
  from indexOf_Some_ne[OF m ne]
  have mp: "searchStart \<le> markerIndex" "markerIndex + 9 \<le> length text"
    by (auto simp: legacyMarker_len)
  show ?thesis
  proof (cases "findJsonEnd text (markerIndex + 9)")
    case None
    with assms m have "p = markerIndex + 9"
      unfolding legacyIter_def by (simp add: Let_def legacyMarker_len)
    with mp show ?thesis by simp
  next
    case (Some jsonEnd)
    from findJsonEnd_bounds[OF Some]
    have je: "markerIndex + 9 < jsonEnd" "jsonEnd \<le> length text" by simp_all
    show ?thesis
    proof (cases "startsWithAt (substring text jsonEnd (length text)) (u16 '']'') 0")
      case False
      with assms m Some have "p = jsonEnd"
        unfolding legacyIter_def by (simp add: Let_def legacyMarker_len)
      with mp je show ?thesis by simp
    next
      case True
      then have "jsonEnd < length text"
        using je by (cases "jsonEnd = length text")
          (auto simp: startsWithAt_def substring_def u16_def Let_def)
      moreover from True assms m Some have "p = jsonEnd + 1"
        unfolding legacyIter_def by (simp add: Let_def legacyMarker_len)
      ultimately show ?thesis using mp je by simp
    qed
  qed
qed

function markupLoop ::
  "fetcher \<Rightarrow> options \<Rightarrow> jsstring \<Rightarrow> nat \<Rightarrow> tag list \<Rightarrow> jsstring list
     \<Rightarrow> tag list \<times> jsstring list" where
  "markupLoop fetchHead opts text searchPos tags probes =
     (case markupIter fetchHead opts text searchPos probes of
        (Break, probes') \<Rightarrow> (tags, probes')
      | (Continue p t, probes') \<Rightarrow>
          markupLoop fetchHead opts text p
            (case t of None \<Rightarrow> tags | Some x \<Rightarrow> tags @ [x]) probes')"
  by pat_completeness auto

lemma markupLoop_total: "All markupLoop_dom"
  by (relation "measure (\<lambda>(fetchHead, opts, text, searchPos, tags, probes).
                           length text - searchPos)")
     (auto dest!: markupIter_advances[OF sym])

termination markupLoop
  by (rule markupLoop_total)

function legacyLoop :: "jsstring \<Rightarrow> nat \<Rightarrow> tag list \<Rightarrow> tag list" where
  "legacyLoop text searchStart tags =
     (case legacyIter text searchStart of
        Break \<Rightarrow> tags
      | Continue p t \<Rightarrow>
          legacyLoop text p (case t of None \<Rightarrow> tags | Some x \<Rightarrow> tags @ [x]))"
  by pat_completeness auto

lemma legacyLoop_total: "All legacyLoop_dom"
  by (relation "measure (\<lambda>(text, searchStart, tags). length text - searchStart)")
     (auto dest!: legacyIter_advances)

termination legacyLoop
  by (rule legacyLoop_total)

text \<open>
  \<^verbatim>\<open>parseImageTags(text, options)\<close>: the markup family first, then the legacy
  family, into one array. The second component lists the paths of the HEAD
  requests the scan has sent, in order.
\<close>

definition parseImageTags :: "fetcher \<Rightarrow> jsstring \<Rightarrow> options \<Rightarrow> tag list \<times> jsstring list" where
  "parseImageTags fetchHead text opts =
     (case markupLoop fetchHead opts text 0 [] [] of
        (tags, probes) \<Rightarrow> (legacyLoop text 0 tags, probes))"

section \<open>Payloads and markers\<close>

text \<open>
  The shape of an instruction payload, as a tree: an object is a pair of
  braces around items, and an item is a character other than a brace or a
  double quote, a string literal, or a nested object. Inside a string literal a
  character is plain (neither a double quote nor a backslash) or escaped by a
  backslash. \<open>payload\<close> writes the tree out.
\<close>

datatype strChar = Plain nat | Escaped nat

datatype item = Ch nat | Str "strChar list" | Obj "item list"

fun renderStrChar :: "strChar \<Rightarrow> jsstring" where
  "renderStrChar (Plain c) = [c]"
| "renderStrChar (Escaped c) = [chBackslash, c]"

fun renderItem :: "item \<Rightarrow> jsstring" where
  "renderItem (Ch c) = [c]"
| "renderItem (Str cs) = chDQuote # concat (map renderStrChar cs) @ [chDQuote]"
| "renderItem (Obj its) = chLBrace # concat (map renderItem its) @ [chRBrace]"

fun wfStrChar :: "strChar \<Rightarrow> bool" where
  "wfStrChar (Plain c) = (c \<noteq> chDQuote \<and> c \<noteq> chBackslash)"
| "wfStrChar (Escaped c) = True"

fun wfItem :: "item \<Rightarrow> bool" where
  "wfItem (Ch c) = (c \<noteq> chDQuote \<and> c \<noteq> chLBrace \<and> c \<noteq> chRBrace)"
| "wfItem (Str cs) = list_all wfStrChar cs"
| "wfItem (Obj its) = list_all wfItem its"

definition payload :: "item list \<Rightarrow> jsstring" where
  "payload its = renderItem (Obj its)"

definition catPayload :: "item list" where
  "catPayload =
     [Str (map Plain (u16 ''prompt'')), Ch 58, Str (map Plain (u16 ''a {cat} sitting''))]"

section \<open>Generation with retry\<close>

text \<open>
  A thrown value is modelled by its \<^verbatim>\<open>message\<close>, \<open>None\<close> when it has none. The
  failure of a request with a status outside 200..299 is
  \<^verbatim>\<open>new Error(`API Error (${response.status}): ${text}`)\<close> in both backends.
\<close>

type_synonym jserror = "jsstring option"

fun showNat :: "nat \<Rightarrow> jsstring" where
  "showNat n = (if n < 10 then [48 + n] else showNat (n div 10) @ [48 + n mod 10])"

declare showNat.simps [simp del]

definition apiErrorMessage :: "nat \<Rightarrow> jsstring \<Rightarrow> jsstring" where
  "apiErrorMessage status body = u16 ''API Error ('' @ showNat status @ u16 ''): '' @ body"

text \<open>
  The substrings \<^verbatim>\<open>isRetryable\<close> looks for in the message: six in
  \<^verbatim>\<open>index.js\<close>, and four of them in the second copy of the module.
\<close>

definition retrySignatures :: "jsstring list" where
  "retrySignatures =
     [u16 ''429'', u16 ''503'', u16 ''502'', u16 ''504'', u16 ''timeout'', u16 ''network'']"

definition retrySignaturesCopy :: "jsstring list" where
  "retrySignaturesCopy = [u16 ''429'', u16 ''503'', u16 ''502'', u16 ''network'']"

definition isRetryable :: "jsstring list \<Rightarrow> jserror \<Rightarrow> bool" where
  "isRetryable sigs message =
     (case message of None \<Rightarrow> False | Some m \<Rightarrow> list_ex (includesStr m) sigs)"

text \<open>
  What the caller observes of a run: the arguments of the status callback
  (the attempt line carries the attempt and \<^verbatim>\<open>maxRetries\<close>, the retry line the
  delay, which the source prints in seconds), the calls of the backend, and
  the sleeps, in order. Delays are integers of milliseconds; a product with a
  power of two is exact in a double below its overflow.
\<close>

datatype statusUpdate = Generating nat int | RetryIn int

datatype genEvent = StatusUpdate statusUpdate | ApiCall nat | Sleep int

text \<open>
  The \<^verbatim>\<open>for (let attempt = 0; attempt <= maxRetries; attempt++)\<close> loop. The
  backend is a parameter: \<open>callApi k\<close> is what the call of attempt \<open>k\<close> returns
  (\<open>Inr\<close>) or throws (\<open>Inl\<close>). The result is the value returned, or the value of
  \<^verbatim>\<open>lastError\<close> thrown after the loop, \<open>None\<close> while it is \<^verbatim>\<open>undefined\<close>.
\<close>

function retryLoop ::
  "jsstring list \<Rightarrow> int \<Rightarrow> int \<Rightarrow> (nat \<Rightarrow> jserror + jsstring) \<Rightarrow> nat \<Rightarrow> jserror option
     \<Rightarrow> genEvent list \<Rightarrow> (jserror option + jsstring) \<times> genEvent list" where
  "retryLoop sigs maxRetries baseDelay callApi attempt lastError evs =
     (if int attempt \<le> maxRetries then
        (let evs1 = evs @ [StatusUpdate (Generating attempt maxRetries), ApiCall attempt] in
         case callApi attempt of
           Inr dataUrl \<Rightarrow> (Inr dataUrl, evs1)
         | Inl error \<Rightarrow>
             if \<not> isRetryable sigs error \<or> int attempt = maxRetries then (Inl (Some error), evs1)
             else
               (let delay = baseDelay * 2 ^ attempt in
                retryLoop sigs maxRetries baseDelay callApi (Suc attempt) (Some error)
                  (evs1 @ [StatusUpdate (RetryIn delay), Sleep delay])))
      else (Inl lastError, evs))"
  by pat_completeness auto
termination
  by (relation "measure (\<lambda>(sigs, maxRetries, baseDelay, callApi, attempt, lastError, evs).
                           nat (maxRetries + 1 - int attempt))") auto

declare retryLoop.simps [simp del]

record settings =
  endpoint :: jsstring
  apiKey :: jsstring
  model :: jsstring
  maxRetries :: int
  retryDelay :: int

text \<open>
  \<^verbatim>\<open>validateSettings\<close>: the message of the error it throws, if any. The three
  complaints and the prefix are Russian text, given by their code units.
\<close>

definition validateSettings :: "settings \<Rightarrow> jsstring option" where
  "validateSettings st =
     (let errors =
            (if endpoint st = [] then
               [[85, 82, 76, 32, 1101, 1085, 1076, 1087, 1086, 1080, 1085, 1090, 1072, 32, 1085,
                 1077, 32, 1085, 1072, 1089, 1090, 1088, 1086, 1077, 1085]]
             else [])
          @ (if apiKey st = [] then
               [[65, 80, 73, 32, 1082, 1083, 1102, 1095, 32, 1085, 1077, 32, 1085, 1072, 1089,
                 1090, 1088, 1086, 1077, 1085]]
             else [])
          @ (if model st = [] then
               [[1052, 1086, 1076, 1077, 1083, 1100, 32, 1085, 1077, 32, 1074, 1099, 1073, 1088,
                 1072, 1085, 1072]]
             else [])
      in case errors of
           [] \<Rightarrow> None
         | e # es \<Rightarrow>
             Some ([1054, 1096, 1080, 1073, 1082, 1072, 32, 1085, 1072, 1089, 1090, 1088, 1086,
                    1077, 1082, 58, 32]
                   @ e @ concat (map (\<lambda>x. u16 '', '' @ x) es)))"

text \<open>
  \<^verbatim>\<open>generateImageWithRetry\<close>. The collection of the reference images before the
  loop and the choice of the backend are part of \<open>callApi\<close>.
\<close>

definition generateImageWithRetry ::
  "jsstring list \<Rightarrow> settings \<Rightarrow> (nat \<Rightarrow> jserror + jsstring)
     \<Rightarrow> (jserror option + jsstring) \<times> genEvent list" where
  "generateImageWithRetry sigs st callApi =
     (case validateSettings st of
        Some msg \<Rightarrow> (Inl (Some (Some msg)), [])
      | None \<Rightarrow> retryLoop sigs (maxRetries st) (retryDelay st) callApi 0 None [])"

text \<open>
  The events of a run that retries after each of the attempts \<open>a\<close> to \<open>k - 1\<close>
  and ends with attempt \<open>k\<close>: each of the former is followed by the notice of
  the retry and the sleep. \<open>thrown\<close> is how the outcome of the last attempt
  leaves \<^verbatim>\<open>generateImageWithRetry\<close>.
\<close>

definition retryTrace :: "int \<Rightarrow> int \<Rightarrow> nat \<Rightarrow> nat \<Rightarrow> genEvent list" where
  "retryTrace maxR baseDelay a k =
     concat (map (\<lambda>j. [StatusUpdate (Generating j maxR), ApiCall j,
                        StatusUpdate (RetryIn (baseDelay * 2 ^ j)), Sleep (baseDelay * 2 ^ j)])
                 [a ..< k])
     @ [StatusUpdate (Generating k maxR), ApiCall k]"

definition thrown :: "jserror + jsstring \<Rightarrow> jserror option + jsstring" where
  "thrown r = (case r of Inl e \<Rightarrow> Inl (Some e) | Inr u \<Rightarrow> Inr u)"

section \<open>The answer of the Gemini backend\<close>

text \<open>
  The parsed body of a successful answer, as far as \<^verbatim>\<open>generateImageGemini\<close> reads
  it: the candidates, of each the parts of its content and its finish reason,
  and the block reason of the prompt feedback. A part carries inline data
  under the name \<^verbatim>\<open>inlineData\<close> or \<^verbatim>\<open>inline_data\<close> (mime type, base64 data), or text.
\<close>

record part =
  inlineData :: "(jsstring \<times> jsstring) option"
  inline_data :: "(jsstring \<times> jsstring) option"
  partText :: "jsstring option"

record candidate =
  contentParts :: "part list option"
  finishReason :: "jsstring option"

record geminiResponse =
  candidates :: "candidate list option"
  blockReason :: "jsstring option"

datatype httpOutcome = FetchRejected jserror | HttpError nat jsstring | HttpOk geminiResponse

definition dataUrl :: "jsstring \<times> jsstring \<Rightarrow> jsstring" where
  "dataUrl d = u16 ''data:'' @ fst d @ u16 '';base64,'' @ snd d"

fun firstInlineImage :: "part list \<Rightarrow> jsstring option" where
  "firstInlineImage [] = None"
| "firstInlineImage (p # ps) =
     (case inlineData p of
        Some d \<Rightarrow> Some (dataUrl d)
      | None \<Rightarrow>
          (case inline_data p of
             Some d \<Rightarrow> Some (dataUrl d)
           | None \<Rightarrow> firstInlineImage ps))"

text \<open>\<^verbatim>\<open>generateImageGemini\<close> of \<^verbatim>\<open>index.js\<close>, from the answer of \<^verbatim>\<open>fetch\<close> on.\<close>

definition generateImageGemini :: "httpOutcome \<Rightarrow> jserror + jsstring" where
  "generateImageGemini outcome =
     (case outcome of
        FetchRejected e \<Rightarrow> Inl e
      | HttpError status body \<Rightarrow> Inl (Some (apiErrorMessage status body))
      | HttpOk result \<Rightarrow>
          (case (case candidates result of Some cs \<Rightarrow> cs | None \<Rightarrow> []) of
             [] \<Rightarrow> Inl (Some (u16 ''No candidates in response''))
           | c # _ \<Rightarrow>
               (case firstInlineImage (case contentParts c of Some ps \<Rightarrow> ps | None \<Rightarrow> []) of
                  Some url \<Rightarrow> Inr url
                | None \<Rightarrow> Inl (Some (u16 ''No image found in Gemini response'')))))"

text \<open>
  The second copy of the module looks for a link in the first non-empty text
  part. \<open>markdownImage\<close> is \<^verbatim>\<open>text.match(/!\[.*?\]\((.*?)\)/)\<close> and \<open>bareUrl\<close> is
  \<^verbatim>\<open>text.match(/(https?:\/\/[^\s)]+)/)\<close>, each giving its group 1. A dot matches
  anything but a line terminator. Both lazy quantifiers take the shortest run
  that lets the rest match, and the engine tries the start offsets from the
  left.
\<close>

definition isLineTerminator :: "nat \<Rightarrow> bool" where
  "isLineTerminator c = (c = 10 \<or> c = 13 \<or> c = 8232 \<or> c = 8233)"

definition linkTarget :: "jsstring \<Rightarrow> jsstring option" where
  "linkTarget s =
     (case dropWhile (\<lambda>c. c \<noteq> 41 \<and> \<not> isLineTerminator c) s of
        c # _ \<Rightarrow>
          if c = 41 then Some (takeWhile (\<lambda>c. c \<noteq> 41 \<and> \<not> isLineTerminator c) s) else None
      | [] \<Rightarrow> None)"

fun afterBang :: "jsstring \<Rightarrow> jsstring option" where
  "afterBang [] = None"
| "afterBang (c # cs) =
     (if take 2 (c # cs) = u16 '']('' \<and> linkTarget (drop 1 cs) \<noteq> None then linkTarget (drop 1 cs)
      else if isLineTerminator c then None
      else afterBang cs)"

fun markdownImage :: "jsstring \<Rightarrow> jsstring option" where
  "markdownImage [] = None"
| "markdownImage (c # cs) =
     (if take 2 (c # cs) = u16 ''!['' then
        (case afterBang (drop 1 cs) of Some t \<Rightarrow> Some t | None \<Rightarrow> markdownImage cs)
      else markdownImage cs)"

definition urlHere :: "jsstring \<Rightarrow> jsstring option" where
  "urlHere s =
     (if take 4 s = u16 ''http'' then
        (let r = drop 4 s;
             hasS = (take 1 r = u16 ''s'');
             r1 = (if hasS then drop 1 r else r)
         in if take 3 r1 = u16 ''://'' then
              (let body = takeWhile (\<lambda>c. \<not> isSpace c \<and> c \<noteq> 41) (drop 3 r1)
               in if body \<noteq> [] then
                    Some (u16 ''http'' @ (if hasS then u16 ''s'' else []) @ u16 ''://'' @ body)
                  else None)
            else None)
      else None)"

fun bareUrl :: "jsstring \<Rightarrow> jsstring option" where
  "bareUrl [] = None"
| "bareUrl (c # cs) = (case urlHere (c # cs) of Some u \<Rightarrow> Some u | None \<Rightarrow> bareUrl cs)"

text \<open>\<^verbatim>\<open>text.match(/!\[.*?\]\((.*?)\)/) || text.match(/(https?:\/\/[^\s)]+)/)\<close>, group 1.\<close>

definition linkIn :: "jsstring \<Rightarrow> jsstring option" where
  "linkIn t = (case markdownImage t of Some u \<Rightarrow> Some u | None \<Rightarrow> bareUrl t)"

fun firstText :: "part list \<Rightarrow> jsstring option" where
  "firstText [] = None"
| "firstText (p # ps) =
     (case partText p of
        Some t \<Rightarrow> if t \<noteq> [] then Some t else firstText ps
      | None \<Rightarrow> firstText ps)"

text \<open>
  The five failure messages of the second copy are Russian text, given by
  their code units: the refusal with the finish reason, the answer in text
  without a picture, the answer with neither picture nor text, the blocked
  prompt, and the empty answer.
\<close>

definition refusalMessage :: "jsstring \<Rightarrow> jsstring \<Rightarrow> jsstring" where
  "refusalMessage reason text =
     [1054, 1090, 1082, 1072, 1079, 32, 1075, 1077, 1085, 1077, 1088, 1072, 1094, 1080, 1080,
      32, 40]
     @ reason @ u16 ''): '' @ [chDQuote] @ substring text 0 100 @ u16 ''...'' @ [chDQuote]"

definition textOnlyMessage :: "jsstring \<Rightarrow> jsstring" where
  "textOnlyMessage text =
     [1052, 1086, 1076, 1077, 1083, 1100, 32, 1086, 1090, 1074, 1077, 1090, 1080, 1083, 1072,
      32, 1090, 1077, 1082, 1089, 1090, 1086, 1084, 32, 1073, 1077, 1079, 32, 1082, 1072, 1088,
      1090, 1080, 1085, 1082, 1080, 58, 32, 34]
     @ substring text 0 100 @ u16 ''...'' @ [chDQuote]"

definition noImageNoTextMessage :: jsstring where
  "noImageNoTextMessage =
     [1042, 32, 1086, 1090, 1074, 1077, 1090, 1077, 32, 1085, 1077, 1090, 32, 1085, 1080, 32,
      1082, 1072, 1088, 1090, 1080, 1085, 1082, 1080, 44, 32, 1085, 1080, 32, 1090, 1077, 1082,
      1089, 1090, 1072, 46]"

definition blockedMessage :: "jsstring \<Rightarrow> jsstring" where
  "blockedMessage reason =
     [1041, 1083, 1086, 1082, 1080, 1088, 1086, 1074, 1082, 1072, 32, 1087, 1088, 1086, 1084,
      1087, 1090, 1072, 32, 40, 83, 97, 102, 101, 116, 121, 41, 58, 32] @ reason"

definition emptyAnswerMessage :: jsstring where
  "emptyAnswerMessage =
     [1055, 1091, 1089, 1090, 1086, 1081, 32, 1086, 1090, 1074, 1077, 1090, 32, 1086, 1090, 32,
      1084, 1086, 1076, 1077, 1083, 1080, 46]"

text \<open>
  \<^verbatim>\<open>generateImageGemini\<close> of the second copy. \<open>imageUrlToBase64\<close> is the download
  of the linked picture: the base64 text, or \<open>None\<close> for \<^verbatim>\<open>null\<close>.
\<close>

definition generateImageGeminiCopy ::
  "(jsstring \<Rightarrow> jsstring option) \<Rightarrow> httpOutcome \<Rightarrow> jserror + jsstring" where
  "generateImageGeminiCopy imageUrlToBase64 outcome =
     (case outcome of
        FetchRejected e \<Rightarrow> Inl e
      | HttpError status body \<Rightarrow> Inl (Some (apiErrorMessage status body))
      | HttpOk result \<Rightarrow>
          (case (case candidates result of Some cs \<Rightarrow> cs | None \<Rightarrow> []) of
             [] \<Rightarrow>
               (case blockReason result of
                  Some r \<Rightarrow>
                    if r \<noteq> [] then Inl (Some (blockedMessage r)) else Inl (Some emptyAnswerMessage)
                | None \<Rightarrow> Inl (Some emptyAnswerMessage))
           | c # _ \<Rightarrow>
               (let responseParts = (case contentParts c of Some ps \<Rightarrow> ps | None \<Rightarrow> []) in
                case firstInlineImage responseParts of
                  Some url \<Rightarrow> Inr url
                | None \<Rightarrow>
                    (case firstText responseParts of
                       None \<Rightarrow> Inl (Some noImageNoTextMessage)
                     | Some text \<Rightarrow>
                         (case linkIn text of
                            Some imgUrl \<Rightarrow>
                              (case imageUrlToBase64 imgUrl of
                                 Some base64 \<Rightarrow>
                                   if base64 \<noteq> [] then
                                     Inr (u16 ''data:image/jpeg;base64,'' @ base64)
                                   else Inr imgUrl
                               | None \<Rightarrow> Inr imgUrl)
                          | None \<Rightarrow>
                              (case finishReason c of
                                 Some fr \<Rightarrow>
                                   if fr \<noteq> [] \<and> fr \<noteq> u16 ''STOP'' then
                                     Inl (Some (refusalMessage fr text))
                                   else Inl (Some (textOnlyMessage text))
                               | None \<Rightarrow> Inl (Some (textOnlyMessage text))))))))"

section \<open>Reconciliation of a message\<close>

text \<open>
  The state the two entry points act on: the switch of the settings, the set
  \<^verbatim>\<open>processingMessages\<close>, the chat, whether the rendered message and its text
  element exist, whether the text element holds an \<^verbatim>\<open>img\<close> with the instruction
  attribute (what \<^verbatim>\<open>mesTextEl.querySelector('img[data-iig-instruction]')\<close> finds),
  and the effects on the collaborators in order. What a single tag does to the
  rendered message, the backend and the text of the message is a parameter:
  any change of the state. The tags of \<^verbatim>\<open>Promise.all\<close> are taken in the order of
  the array.
\<close>

record message =
  mes :: jsstring
  is_user :: bool

datatype effect =
    HeadRequest jsstring
  | ToastInfo
  | ToastWarning
  | ToastError
  | ConsoleError
  | DomMutation nat nat
  | SaveChat

record world =
  enabled :: bool
  processingMessages :: "nat set"
  chat :: "message list"
  messageElement :: "nat \<Rightarrow> bool"
  mesTextEl :: "nat \<Rightarrow> bool"
  instructionImg :: "nat \<Rightarrow> bool"
  effects :: "effect list"

type_synonym tagStep = "nat \<Rightarrow> tag \<Rightarrow> nat \<Rightarrow> world \<Rightarrow> world"

definition runTags :: "tagStep \<Rightarrow> nat \<Rightarrow> tag list \<Rightarrow> world \<Rightarrow> world" where
  "runTags step messageId tags w =
     fold (\<lambda>(tag, i). step messageId tag i) (zip tags [0 ..< length tags]) w"

definition processMessageTags :: "fetcher \<Rightarrow> tagStep \<Rightarrow> nat \<Rightarrow> world \<Rightarrow> world" where
  "processMessageTags fetchHead step messageId w =
     (if \<not> enabled w then w
      else if messageId \<in> processingMessages w then w
      else if length (chat w) \<le> messageId then w
      else if is_user (chat w ! messageId) then w
      else
        (case parseImageTags fetchHead (mes (chat w ! messageId))
                \<lparr>checkExistence = True, forceAll = False\<rparr> of
           (tags, probes) \<Rightarrow>
             (let w1 = w\<lparr>effects := effects w @ map HeadRequest probes\<rparr> in
              if tags = [] then w1
              else
                (let w2 = w1\<lparr>processingMessages := insert messageId (processingMessages w1),
                              effects := effects w1 @ [ToastInfo]\<rparr>
                 in if \<not> messageElement w2 messageId then
                      w2\<lparr>effects := effects w2 @ [ConsoleError]\<rparr>
                    else if \<not> mesTextEl w2 messageId then w2
                    else
                      (let w3 = runTags step messageId tags w2;
                           w4 = w3\<lparr>processingMessages := processingMessages w3 - {messageId}\<rparr>
                       in w4\<lparr>effects := effects w4 @ [SaveChat]\<rparr>)))))"

text \<open>
  The body of the loop of \<^verbatim>\<open>regenerateMessageImages\<close> is guarded by
  \<^verbatim>\<open>if (existingImg)\<close>: for a tag it does nothing at all when the text element
  holds no \<^verbatim>\<open>img\<close> with the instruction attribute. What it does otherwise is the
  parameter. The set \<^verbatim>\<open>processingMessages\<close> is written, never read.
\<close>

definition regenerateMessageImages :: "fetcher \<Rightarrow> tagStep \<Rightarrow> nat \<Rightarrow> world \<Rightarrow> world" where
  "regenerateMessageImages fetchHead regenerateTag messageId w =
     (if length (chat w) \<le> messageId then w\<lparr>effects := effects w @ [ToastError]\<rparr>
      else
        (case parseImageTags fetchHead (mes (chat w ! messageId))
                \<lparr>checkExistence = False, forceAll = True\<rparr> of
           (tags, probes) \<Rightarrow>
             (let w1 = w\<lparr>effects := effects w @ map HeadRequest probes\<rparr> in
              if tags = [] then w1\<lparr>effects := effects w1 @ [ToastWarning]\<rparr>
              else
                (let w2 = w1\<lparr>processingMessages := insert messageId (processingMessages w1),
                              effects := effects w1 @ [ToastInfo]\<rparr>
                 in if \<not> messageElement w2 messageId then
                      w2\<lparr>processingMessages := processingMessages w2 - {messageId}\<rparr>
                    else if \<not> mesTextEl w2 messageId then
                      w2\<lparr>processingMessages := processingMessages w2 - {messageId}\<rparr>
                    else
                      (let w3 = runTags
                                  (\<lambda>messageId tag i w.
                                     if instructionImg w messageId then regenerateTag messageId tag i w
                                     else w)
                                  messageId tags w2;
                           w4 = w3\<lparr>processingMessages := processingMessages w3 - {messageId}\<rparr>
                       in w4\<lparr>effects := effects w4 @ [SaveChat]\<rparr>)))))"

text \<open>
  The closure \<^verbatim>\<open>processTag\<close> of \<^verbatim>\<open>processMessageTags\<close>. Before its first
  \<^verbatim>\<open>await\<close> it puts a loading placeholder into the rendered message: in place of
  the element it finds for the tag, or at the end of the text element when it
  finds none. In both cases the rendered message changes. What follows (the
  generation, the new element, the new text of the message) is the parameter.
\<close>

definition processTag :: "tagStep \<Rightarrow> tagStep" where
  "processTag generate messageId t i w =
     generate messageId t i (w\<lparr>effects := effects w @ [DomMutation messageId i]\<rparr>)"

section \<open>Example inputs\<close>

text \<open>
  The options of the two callers: \<^verbatim>\<open>processMessageTags\<close> scans with
  \<^verbatim>\<open>{ checkExistence: true }\<close>, \<^verbatim>\<open>regenerateMessageImages\<close> with
  \<^verbatim>\<open>{ forceAll: true }\<close>; a flag left out is \<^verbatim>\<open>false\<close>.
\<close>

definition normalMode :: options where
  "normalMode = \<lparr>checkExistence = True, forceAll = False\<rparr>"

definition forceMode :: options where
  "forceMode = \<lparr>checkExistence = False, forceAll = True\<rparr>"

text \<open>A markup tag whose source is a path on the server.\<close>

definition resolvedImg :: jsstring where
  \<open>resolvedImg = u16 ''<img data-iig-instruction='{"prompt":"x"}' src="/user/images/a.png">''\<close>

text \<open>A markup tag that has not been generated yet.\<close>

definition unresolvedImg :: jsstring where
  \<open>unresolvedImg = u16 ''<img data-iig-instruction='{"prompt":"x"}' src="[IMG:GEN]">''\<close>


definition inFlightWorld :: world where
  "inFlightWorld =
     \<lparr>enabled = True, processingMessages = {0},
      chat = [\<lparr>mes = unresolvedImg, is_user = False\<rparr>],
      messageElement = (\<lambda>i. True), mesTextEl = (\<lambda>i. True),
      instructionImg = (\<lambda>i. False), effects = []\<rparr>"

text \<open>
  Settings with two retries and a base delay of one second; a 503 failure and
  a 400 failure whose body happens to contain the digits 503; a backend that
  fails twice with the former, and one that fails once with the latter.
\<close>

definition retrySettings :: settings where
  "retrySettings = \<lparr>endpoint = u16 ''https://api.example'', apiKey = u16 ''key'',
      model = u16 ''m'', maxRetries = 2, retryDelay = 1000\<rparr>"

definition unavailable :: jsstring where
  "unavailable = apiErrorMessage 503 (u16 ''Service Unavailable'')"

definition badRequest :: jsstring where
  "badRequest = apiErrorMessage 400 (u16 ''request 5030 rejected'')"

definition twoFailures :: "nat \<Rightarrow> jserror + jsstring" where
  "twoFailures k = (if k < 2 then Inl (Some unavailable) else Inr (u16 ''data:image/png;base64,QUJD''))"

definition oneBadRequest :: "nat \<Rightarrow> jserror + jsstring" where
  "oneBadRequest k = (if k < 1 then Inl (Some badRequest) else Inr (u16 ''data:image/png;base64,QUJD''))"

text \<open>
  Answers of the Gemini backend without inline data: a text part with a
  markdown link to a picture, a refusal with the finish reason \<^verbatim>\<open>SAFETY\<close>, a plain
  text, and no part at all; and a download that fails.
\<close>

definition textPart :: "jsstring \<Rightarrow> part" where
  "textPart t = \<lparr>inlineData = None, inline_data = None, partText = Some t\<rparr>"

definition answer :: "part list \<Rightarrow> jsstring \<Rightarrow> geminiResponse" where
  "answer ps reason =
     \<lparr>candidates = Some [\<lparr>contentParts = Some ps, finishReason = Some reason\<rparr>],
      blockReason = None\<rparr>"

definition linkAnswer :: geminiResponse where
  "linkAnswer = answer [textPart (u16 ''Here: ![cat](https://x.test/cat.png) enjoy'')] (u16 ''STOP'')"

definition refusalAnswer :: geminiResponse where
  "refusalAnswer = answer [textPart (u16 ''I cannot draw that.'')] (u16 ''SAFETY'')"

definition textAnswer :: geminiResponse where
  "textAnswer = answer [textPart (u16 ''A cat sits on a mat.'')] (u16 ''STOP'')"

definition emptyAnswer :: geminiResponse where
  "emptyAnswer = answer [] (u16 ''STOP'')"

definition noDownload :: "jsstring \<Rightarrow> jsstring option" where
  "noDownload url = None"

text \<open>
  The default options; a markup tag whose prompt quotes a legacy marker; a
  markup tag followed by a second instruction attribute outside any element;
  and a text with one tag of each family.
\<close>

definition defaultMode :: options where
  "defaultMode = \<lparr>checkExistence = False, forceAll = False\<rparr>"

definition nestedImg :: jsstring where
  \<open>nestedImg = u16 ''<img data-iig-instruction='{"prompt":"[IMG:GEN:{}]"}' src="[IMG:GEN]">''\<close>

definition danglingAttr :: jsstring where
  \<open>danglingAttr = u16 ''<img data-iig-instruction='{"prompt":"a"}' src="[IMG:GEN]"> data-iig-instruction='{"prompt":"b"}' >''\<close>

definition mixedText :: jsstring where
  \<open>mixedText = u16 ''Hello <img data-iig-instruction='{"prompt":"x"}' src="[IMG:GEN]"> and [IMG:GEN:{"prompt":"a red fox","style":"watercolor"}] world''\<close>

section \<open>Ranges of tags\<close>

text \<open>
  A tag is a slice of the text when its \<open>fullMatch\<close> stands in the text at its
  \<open>index\<close>; \<open>tagEnd\<close> is the offset after it.
\<close>

definition isSlice :: "jsstring \<Rightarrow> tag \<Rightarrow> bool" where
  "isSlice tx t = (index t + length (fullMatch t) \<le> length tx
                   \<and> take (length (fullMatch t)) (drop (index t) tx) = fullMatch t)"

definition tagEnd :: "tag \<Rightarrow> nat" where
  "tagEnd t = index t + length (fullMatch t)"

text \<open>
  The markup iteration in two parts, for the proofs: the offsets of a
  candidate (start of the element, start and end of the payload, end of the
  element), and what is done with a candidate.
\<close>

definition markupCandidate :: "jsstring \<Rightarrow> nat \<Rightarrow> (nat \<times> nat \<times> nat \<times> nat) option" where
  "markupCandidate tx markerPos =
     (case lastIndexOf tx (u16 ''<img'') markerPos of
        None \<Rightarrow> None
      | Some imgStart \<Rightarrow>
          if markerPos - imgStart > 500 then None
          else
            (case indexOf tx [chLBrace] (markerPos + length imgTagMarker) of
               None \<Rightarrow> None
             | Some jsonStart \<Rightarrow>
                 if jsonStart > markerPos + length imgTagMarker + 10 then None
                 else
                   (case findJsonEnd tx jsonStart of
                      None \<Rightarrow> None
                    | Some jsonEnd \<Rightarrow>
                        (case indexOf tx [chGt] jsonEnd of
                           None \<Rightarrow> None
                         | Some gtPos \<Rightarrow> Some (imgStart, jsonStart, jsonEnd, gtPos + 1)))))"

definition markupSrc :: "jsstring \<Rightarrow> nat \<Rightarrow> nat \<Rightarrow> jsstring" where
  "markupSrc tx imgStart imgEnd =
     (case srcMatch (substring tx imgStart imgEnd) of Some v \<Rightarrow> v | None \<Rightarrow> [])"

definition markupDecide ::
  "fetcher \<Rightarrow> options \<Rightarrow> jsstring \<Rightarrow> nat \<Rightarrow> nat \<Rightarrow> nat \<Rightarrow> nat \<Rightarrow> jsstring list
     \<Rightarrow> iter \<times> jsstring list" where
  "markupDecide f os tx imgStart jsonStart jsonEnd imgEnd ps =
     (if \<not> fst (needsGeneration f os (markupSrc tx imgStart imgEnd) ps) then
        (Continue imgEnd None, snd (needsGeneration f os (markupSrc tx imgStart imgEnd) ps))
      else
        (Continue imgEnd
           (parseTag (decodeEntities (substring tx jsonStart jsonEnd))
              (substring tx imgStart imgEnd) imgStart True
              (if hasPath (markupSrc tx imgStart imgEnd)
               then Some (markupSrc tx imgStart imgEnd) else None)),
         snd (needsGeneration f os (markupSrc tx imgStart imgEnd) ps)))"

section \<open>The elements of the markup family\<close>

lemma lastIndexOf_Some:
  assumes "lastIndexOf s p from = Some i"
  shows "i \<le> from \<and> i \<le> length s \<and> startsWithAt s p i"
proof -
  from assms have "i \<in> set (rev [0 ..< Suc (min from (length s))]) \<and> startsWithAt s p i"
    unfolding lastIndexOf_def by (rule find_Some_mem)
  then show ?thesis by auto
qed

lemma markupCandidate_bounds:
  assumes "markupCandidate tx markerPos = Some (imgStart, jsonStart, jsonEnd, imgEnd)"
  shows "imgStart \<le> markerPos \<and> markerPos \<le> jsonStart \<and> jsonStart < jsonEnd
         \<and> jsonEnd < imgEnd \<and> imgEnd \<le> length tx"
proof -
  from assms have i: "lastIndexOf tx (u16 ''<img'') markerPos = Some imgStart"
    unfolding markupCandidate_def by (auto split: option.splits if_splits)
  from assms i have js: "indexOf tx [chLBrace] (markerPos + length imgTagMarker) = Some jsonStart"
    unfolding markupCandidate_def by (auto split: option.splits if_splits)
  from assms i js have je: "findJsonEnd tx jsonStart = Some jsonEnd"
    unfolding markupCandidate_def by (auto split: option.splits if_splits)
  from assms i js je obtain gtPos where gp: "indexOf tx [chGt] jsonEnd = Some gtPos"
      and e: "imgEnd = gtPos + 1"
    unfolding markupCandidate_def by (auto split: option.splits if_splits)
  from lastIndexOf_Some[OF i] have a: "imgStart \<le> markerPos" by simp
  from indexOf_Some_ne[OF js] have b: "markerPos \<le> jsonStart" by simp
  from findJsonEnd_bounds[OF je] have c: "jsonStart < jsonEnd" by simp
  from indexOf_Some_ne[OF gp] have d: "jsonEnd \<le> gtPos" "gtPos + 1 \<le> length tx" by simp_all
  from a b c d e show ?thesis by simp
qed

text \<open>
  The elements the markup loop visits from a search position on, each with its
  four offsets: the loop goes from one occurrence of the attribute to the
  next, resumes one character after an occurrence without a candidate, and at
  the end of the element after a candidate. \<open>elementSrc\<close> is the value
  \<^verbatim>\<open>srcValue\<close> of an element, and \<open>probed\<close> says for which values the scanner
  sends a HEAD request.
\<close>

function markupElements :: "jsstring \<Rightarrow> nat \<Rightarrow> (nat \<times> nat \<times> nat \<times> nat) list" where
  "markupElements tx searchPos =
     (case indexOf tx imgTagMarker searchPos of
        None \<Rightarrow> []
      | Some markerPos \<Rightarrow>
          (case markupCandidate tx markerPos of
             None \<Rightarrow> markupElements tx (markerPos + 1)
           | Some (imgStart, jsonStart, jsonEnd, imgEnd) \<Rightarrow>
               (imgStart, jsonStart, jsonEnd, imgEnd) # markupElements tx imgEnd))"
  by pat_completeness auto

lemma markupElements_total: "All markupElements_dom"
proof (relation "measure (\<lambda>(tx, searchPos). length tx - searchPos)")
  show "wf (measure (\<lambda>(tx, searchPos). length tx - searchPos))" by simp
next
  fix tx :: jsstring and searchPos markerPos :: nat
  assume m: "indexOf tx imgTagMarker searchPos = Some markerPos"
  have ne: "imgTagMarker \<noteq> []" using imgTagMarker_len by auto
  from indexOf_Some_ne[OF m ne] have "searchPos \<le> markerPos" "markerPos < length tx"
    by (auto simp: imgTagMarker_len)
  then show "((tx, markerPos + 1), (tx, searchPos)) \<in> measure (\<lambda>(tx, searchPos). length tx - searchPos)"
    by simp
next
  fix tx :: jsstring and searchPos markerPos :: nat and c :: "nat \<times> nat \<times> nat \<times> nat"
    and imgStart y jsonStart z jsonEnd imgEnd
  assume m: "indexOf tx imgTagMarker searchPos = Some markerPos"
    and c: "markupCandidate tx markerPos = Some c" "(imgStart, y) = c" "(jsonStart, z) = y"
      "(jsonEnd, imgEnd) = z"
  have ne: "imgTagMarker \<noteq> []" using imgTagMarker_len by auto
  from indexOf_Some_ne[OF m ne] have a: "searchPos \<le> markerPos" by simp
  from c have "markupCandidate tx markerPos = Some (imgStart, jsonStart, jsonEnd, imgEnd)" by auto
  from markupCandidate_bounds[OF this] have "markerPos < imgEnd" "imgEnd \<le> length tx" by simp_all
  with a show "((tx, imgEnd), (tx, searchPos)) \<in> measure (\<lambda>(tx, searchPos). length tx - searchPos)"
    by simp
qed

termination markupElements
  by (rule markupElements_total)

definition elementSrc :: "jsstring \<Rightarrow> nat \<times> nat \<times> nat \<times> nat \<Rightarrow> jsstring" where
  "elementSrc tx el = (case el of (imgStart, jsonStart, jsonEnd, imgEnd) \<Rightarrow> markupSrc tx imgStart imgEnd)"

definition probed :: "options \<Rightarrow> jsstring \<Rightarrow> bool" where
  "probed opts srcValue =
     (checkExistence opts \<and> \<not> forceAll opts \<and> hasPath srcValue \<and> \<not> hasMarker srcValue
      \<and> \<not> hasErrorImage srcValue)"

declare markupElements.simps [simp del]

text \<open>
  What the markup loop does with one element, given the tags and the requests
  so far: the decision of the iteration, without the search for the element.
\<close>

definition elementStep ::
  "fetcher \<Rightarrow> options \<Rightarrow> jsstring \<Rightarrow> nat \<times> nat \<times> nat \<times> nat
     \<Rightarrow> tag list \<times> jsstring list \<Rightarrow> tag list \<times> jsstring list" where
  "elementStep f os tx el acc =
     (case el of (imgStart, jsonStart, jsonEnd, imgEnd) \<Rightarrow>
        (case markupDecide f os tx imgStart jsonStart jsonEnd imgEnd (snd acc) of
           (Continue p (Some t), probes') \<Rightarrow> (fst acc @ [t], probes')
         | (_, probes') \<Rightarrow> (fst acc, probes')))"



definition unresolvedTag :: tag where
  "unresolvedTag = \<lparr>fullMatch = unresolvedImg, index = 0, style = JStr [], prompt = JStr (u16 ''x''),
     aspectRatio = JNull, imageSize = JNull, quality = JNull, isNewFormat = True,
     existingSrc = None\<rparr>"

section \<open>Markers in a text\<close>























section \<open>Termination of the scanner\<close>

text \<open>
  Claim C10. The scanner terminates on every text: both loops are in the
  domain of their recursion at every argument, and an iteration of either loop
  that does not leave the loop moves its search position strictly forward and
  not past the end of the text. This covers every way a candidate is given up:
  no opening brace or one too far away, unbalanced braces, no closing angle
  bracket, no closing square bracket, and instruction JSON that does not parse.
\<close>

theorem parseImageTags_terminates:
  "markupLoop_dom (fetchHead, opts, text, searchPos, tags, probes)
   \<and> legacyLoop_dom (text, searchStart, tags')
   \<and> (case markupIter fetchHead opts text searchPos probes of
         (Break, ps) \<Rightarrow> True
       | (Continue p t, ps) \<Rightarrow> searchPos < p \<and> p \<le> length text)
   \<and> (case legacyIter text searchStart of
         Break \<Rightarrow> True
       | Continue p t \<Rightarrow> searchStart < p \<and> p \<le> length text)"
proof -
  have "markupLoop_dom (fetchHead, opts, text, searchPos, tags, probes)"
    using markupLoop_total by (rule spec)
  moreover have "legacyLoop_dom (text, searchStart, tags')"
    using legacyLoop_total by (rule spec)
  moreover have "case markupIter fetchHead opts text searchPos probes of
         (Break, ps) \<Rightarrow> True
       | (Continue p t, ps) \<Rightarrow> searchPos < p \<and> p \<le> length text"
    by (auto split: prod.splits iter.splits dest: markupIter_advances)
  moreover have "case legacyIter text searchStart of
         Break \<Rightarrow> True
       | Continue p t \<Rightarrow> searchStart < p \<and> p \<le> length text"
    by (auto split: iter.splits dest: legacyIter_advances)
  ultimately show ?thesis by blast
qed

section \<open>The end of a payload\<close>

lemma scan_strChars:
  "list_all wfStrChar cs \<Longrightarrow>
   scanBraces (concat (map renderStrChar cs) @ chDQuote # rest) i bc True False
     = scanBraces rest (i + length (concat (map renderStrChar cs)) + 1) bc False False"
proof (induction cs arbitrary: i)
  case Nil
  then show ?case by (simp add: chBackslash_def chDQuote_def)
next
  case (Cons c cs)
  then show ?case
    by (cases c) (simp_all add: chBackslash_def chDQuote_def)
qed

lemma scan_item:
  "wfItem it \<Longrightarrow> 1 \<le> bc \<Longrightarrow>
   scanBraces (renderItem it @ rest) i bc False False
     = scanBraces rest (i + length (renderItem it)) bc False False"
proof (induction it arbitrary: rest i bc)
  case (Ch c)
  then show ?case by (simp add: chBackslash_def chDQuote_def)
next
  case (Str cs)
  then show ?case
    using scan_strChars[of cs rest "Suc i" bc] by simp
next
  case (Obj its)
  have items: "\<And>rest i bc. 1 \<le> bc \<Longrightarrow> list_all wfItem its' \<Longrightarrow> set its' \<subseteq> set its \<Longrightarrow>
      scanBraces (concat (map renderItem its') @ rest) i bc False False
        = scanBraces rest (i + length (concat (map renderItem its'))) bc False False" for its'
  proof (induction its')
    case Nil
    then show ?case by simp
  next
    case (Cons a as)
    from Cons.prems have a: "a \<in> set its" "wfItem a"
      and as: "list_all wfItem as" "set as \<subseteq> set its"
      by auto
    show ?case
      using Obj.IH[OF a(1) a(2) Cons.prems(1), of "concat (map renderItem as) @ rest" i]
            Cons.IH[OF Cons.prems(1) as, of rest "i + length (renderItem a)"]
      by (simp add: add.assoc)
  qed
  from Obj.prems have wf: "list_all wfItem its" by simp
  have "1 \<le> bc + 1" using Obj.prems by simp
  from items[OF this wf subset_refl, of "chRBrace # rest" "Suc i"] Obj.prems
  show ?case
    by (simp add: chBackslash_def chDQuote_def chLBrace_def chRBrace_def)
qed

lemma scan_items:
  "1 \<le> bc \<Longrightarrow> list_all wfItem its \<Longrightarrow>
   scanBraces (concat (map renderItem its) @ rest) i bc False False
     = scanBraces rest (i + length (concat (map renderItem its))) bc False False"
proof (induction its arbitrary: i)
  case Nil
  then show ?case by simp
next
  case (Cons a as)
  then show ?case
    using scan_item[of a bc "concat (map renderItem as) @ rest" i]
    by (simp add: add.assoc)
qed

lemma scan_payload:
  assumes "list_all wfItem its"
  shows "scanBraces (payload its @ rest) i 0 False False = Some (i + length (payload its))"
  using scan_items[of 1 its "chRBrace # rest" "Suc i"] assms
  by (simp add: payload_def chBackslash_def chDQuote_def chLBrace_def chRBrace_def)

lemma findJsonEnd_payload:
  "list_all wfItem its \<Longrightarrow>
   findJsonEnd (pre @ payload its @ suf) (length pre) = Some (length pre + length (payload its))"
  unfolding findJsonEnd_def by (simp add: scan_payload)

text \<open>
  Claim C2. Wherever a payload stands in a text, whatever comes before and
  after it, the scan started at its opening brace ends right after the brace
  that closes it. Braces inside a string literal are not counted, an escaped
  double quote does not end the literal, and nested objects are balanced; the
  scan does not stop early at a quoted brace. The witness is the payload
  \<^verbatim>\<open>{"prompt":"a {cat} sitting"}\<close> inside a legacy marker: the scan from offset 9
  ends at offset 37, after the last brace.
\<close>

theorem balanced_brace_end:
  "list_all wfItem its \<Longrightarrow>
   findJsonEnd (pre @ payload its @ suf) (length pre) = Some (length pre + length (payload its))"
  by (rule findJsonEnd_payload)

theorem balanced_brace_end_witness:
  \<open>list_all wfItem catPayload
   \<and> payload catPayload = u16 ''{"prompt":"a {cat} sitting"}''
   \<and> findJsonEnd (u16 ''[IMG:GEN:{"prompt":"a {cat} sitting"}]'') 9 = Some 37\<close>
proof -
  have wf: "list_all wfItem catPayload"
    by (simp add: catPayload_def u16_def chDQuote_def chBackslash_def chLBrace_def chRBrace_def)
  have p: \<open>payload catPayload = u16 ''{"prompt":"a {cat} sitting"}''\<close>
    by (simp add: catPayload_def payload_def u16_def chDQuote_def chLBrace_def chRBrace_def)
  have t: \<open>u16 ''[IMG:GEN:{"prompt":"a {cat} sitting"}]''
            = u16 ''[IMG:GEN:'' @ payload catPayload @ u16 '']''\<close>
    unfolding p by (simp add: u16_def)
  have r: "findJsonEnd (u16 ''[IMG:GEN:'' @ payload catPayload @ u16 '']'')
             (length (u16 ''[IMG:GEN:''))
           = Some (length (u16 ''[IMG:GEN:'') + length (payload catPayload))"
    by (rule balanced_brace_end[OF wf])
  have l1: "length (u16 ''[IMG:GEN:'') = 9" by (simp add: u16_def)
  have l2: "length (payload catPayload) = 28" by (simp add: p u16_def)
  from r have \<open>findJsonEnd (u16 ''[IMG:GEN:{"prompt":"a {cat} sitting"}]'') 9 = Some 37\<close>
    unfolding t[symmetric] l1 l2 by simp
  with wf p show ?thesis by blast
qed

section \<open>Evaluation on examples\<close>

text \<open>
  The equations that evaluate the scanner on a given text. The counter of the
  JSON parser is a numeral there, so its equations are stated for numerals.
\<close>

declare markupLoop.simps [simp del] legacyLoop.simps [simp del]

lemmas parse_numeral =
  parseValue.simps(2)[of "pred_numeral k" for k, folded numeral_eq_Suc]
  parseElements.simps(2)[of "pred_numeral k" for k, folded numeral_eq_Suc]
  parseMembers.simps(2)[of "pred_numeral k" for k, folded numeral_eq_Suc]

lemmas ch_defs =
  u16_def chLBrace_def chRBrace_def chDQuote_def chSQuote_def chBackslash_def chGt_def

lemmas json_defs =
  jsonParse_def parseTag_def makeTag_def getProp_def orElse_def isJsonWs_def isDigit_def
  parseNumber_def digitsVal_def hexVal_def hex4_def numNonzero_def parse_numeral

lemmas scan_defs =
  indexOf_def lastIndexOf_def startsWithAt_def substring_def includesStr_def findJsonEnd_def
  imgTagMarker_def legacyMarker_def hasMarker_def hasErrorImage_def hasPath_def
  needsGeneration_def checkFileExists_def decodeEntities_def srcMatchHere_def isSpace_def
  srcChar_def markupIter_def legacyIter_def parseImageTags_def Let_def
  markupLoop.simps legacyLoop.simps

section \<open>The existence policy\<close>

text \<open>
  Claim C3, as stated, fails: under the normal mode with the existence check,
  a markup tag whose source is a path on the server needs generation when the
  probe throws. \<^verbatim>\<open>checkFileExists\<close> catches the exception and answers \<^verbatim>\<open>false\<close>,
  which the scanner reads as a missing file, and the tag is returned.
\<close>

theorem probe_failure_counterexample:
  "fst (needsGeneration (\<lambda>k p. NetworkError) normalMode (u16 ''/user/images/a.png'') [])
   \<and> map fullMatch (fst (parseImageTags (\<lambda>k p. NetworkError) resolvedImg normalMode))
       = [resolvedImg]"
  by (simp add: resolvedImg_def normalMode_def scan_defs ch_defs json_defs)

text \<open>
  Claim C3, amended. Under the normal mode with the existence check, for a
  source that is a path on the server (and carries neither a marker nor the
  error image), the tag needs generation exactly when the probe does not
  answer with a successful response: a response with any other status and a
  probe that throws both count as a missing file. The path is probed once.
\<close>

theorem existence_policy_probe:
  "\<not> forceAll opts \<Longrightarrow> checkExistence opts \<Longrightarrow> hasPath src \<Longrightarrow> \<not> hasMarker src
   \<Longrightarrow> \<not> hasErrorImage src \<Longrightarrow>
   fst (needsGeneration fetchHead opts src probes) = (fetchHead (length probes) src \<noteq> Response True)
   \<and> snd (needsGeneration fetchHead opts src probes) = probes @ [src]"
  by (auto simp: needsGeneration_def checkFileExists_def hasPath_def split: fetchOutcome.splits)

theorem existence_policy_probe_witness:
  "\<not> forceAll normalMode \<and> checkExistence normalMode \<and> hasPath (u16 ''/user/images/a.png'')
   \<and> \<not> hasMarker (u16 ''/user/images/a.png'') \<and> \<not> hasErrorImage (u16 ''/user/images/a.png'')
   \<and> fst (needsGeneration (\<lambda>k p. NetworkError) normalMode (u16 ''/user/images/a.png'') [])
   \<and> \<not> fst (needsGeneration (\<lambda>k p. Response True) normalMode (u16 ''/user/images/a.png'') [])
   \<and> fst (needsGeneration (\<lambda>k p. Response False) normalMode (u16 ''/user/images/a.png'') [])"
proof -
  have h1: "\<not> forceAll normalMode" and h2: "checkExistence normalMode"
    by (simp_all add: normalMode_def)
  have h3: "hasPath (u16 ''/user/images/a.png'')"
    and h4: "\<not> hasMarker (u16 ''/user/images/a.png'')"
    and h5: "\<not> hasErrorImage (u16 ''/user/images/a.png'')"
    by (simp_all add: scan_defs ch_defs)
  show ?thesis
    using h1 h2 h3 h4 h5
      existence_policy_probe[OF h1 h2 h3 h4 h5, of "\<lambda>k p. NetworkError" "[]"]
      existence_policy_probe[OF h1 h2 h3 h4 h5, of "\<lambda>k p. Response True" "[]"]
      existence_policy_probe[OF h1 h2 h3 h4 h5, of "\<lambda>k p. Response False" "[]"]
    by simp
qed

section \<open>The retry policy\<close>

lemma retryTrace_step:
  "a < k \<Longrightarrow> retryTrace maxR b a k =
     [StatusUpdate (Generating a maxR), ApiCall a, StatusUpdate (RetryIn (b * 2 ^ a)), Sleep (b * 2 ^ a)]
     @ retryTrace maxR b (Suc a) k"
  by (simp add: retryTrace_def upt_conv_Cons)

lemma retryLoop_closed:
  assumes "int k \<le> maxR" "a \<le> k"
    and "\<forall>j. a \<le> j \<and> j < k \<longrightarrow> (\<exists>e. callApi j = Inl e \<and> isRetryable sigs e)"
    and "(\<exists>u. callApi k = Inr u) \<or> (\<exists>e. callApi k = Inl e \<and> (\<not> isRetryable sigs e \<or> int k = maxR))"
  shows "retryLoop sigs maxR b callApi a lastE evs = (thrown (callApi k), evs @ retryTrace maxR b a k)"
  using assms(2,3)
proof (induction "k - a" arbitrary: a lastE evs)
  case 0
  then have ak: "a = k" by simp
  show ?case
    using assms(1,4) unfolding ak
    by (subst retryLoop.simps) (auto simp: thrown_def retryTrace_def Let_def)
next
  case (Suc n)
  then have lt: "a < k" by simp
  with Suc.prems obtain e where e: "callApi a = Inl e" "isRetryable sigs e" by auto
  have n: "n = k - Suc a" using Suc.hyps(2) by simp
  have le: "Suc a \<le> k" using lt by simp
  have rest: "\<forall>j. Suc a \<le> j \<and> j < k \<longrightarrow> (\<exists>e. callApi j = Inl e \<and> isRetryable sigs e)"
    using Suc.prems by auto
  have ne: "int a \<noteq> maxR" "int a \<le> maxR" using lt assms(1) by auto
  show ?case
    using Suc.hyps(1)[OF n le rest] e ne
    by (subst retryLoop.simps) (simp add: Let_def retryTrace_step[OF lt])
qed

lemma includesStr_append: "includesStr (a @ p @ b) p"
proof -
  have "startsWithAt (a @ p @ b) p (length a)" by (simp add: startsWithAt_def)
  moreover have "length a \<in> set [min 0 (length (a @ p @ b)) ..< Suc (length (a @ p @ b))]" by simp
  ultimately have "\<exists>x. x \<in> set [min 0 (length (a @ p @ b)) ..< Suc (length (a @ p @ b))] \<and> startsWithAt (a @ p @ b) p x"
    by blast
  then show ?thesis
    unfolding includesStr_def indexOf_def find_None_iff by blast
qed

lemma status_retryable:
  assumes "status = 429 \<or> status = 502 \<or> status = 503 \<or> status = 504"
  shows "isRetryable retrySignatures (Some (apiErrorMessage status body))"
proof -
  have "includesStr (apiErrorMessage status body) (showNat status)"
    unfolding apiErrorMessage_def by (rule includesStr_append)
  moreover have "showNat 429 = u16 ''429''" "showNat 502 = u16 ''502''"
    "showNat 503 = u16 ''503''" "showNat 504 = u16 ''504''"
    by (simp_all add: showNat.simps u16_def)
  then have "showNat status \<in> set retrySignatures"
    using assms by (auto simp: retrySignatures_def)
  ultimately show ?thesis
    by (auto simp: isRetryable_def list_ex_iff)
qed

text \<open>
  Claim C4, amended. A failure is retried exactly when its message contains
  one of the substrings of \<open>isRetryable\<close> and attempts remain. Let \<open>k\<close> be the first
  attempt, not above \<^verbatim>\<open>maxRetries\<close>, that succeeds, or fails with a message that
  contains none of them, or is the last one allowed, all attempts before it
  having failed with such a message. Then the run makes the attempts 0 to \<open>k\<close>;
  after each attempt \<open>j\<close> before \<open>k\<close> it calls the status callback with the delay
  \<open>baseDelay \<times> 2\<^sup>j\<close> and then sleeps for it; and it returns what attempt \<open>k\<close>
  returned, or throws what it threw, unchanged. Every API error of \<^verbatim>\<open>index.js\<close>
  with status 429, 502, 503 or 504 has such a message. The witness is the
  run with two retries allowed, a 503 on the first two attempts and a success
  on the third: it returns the success after two notices, of 1000 and 2000 ms.
\<close>

theorem retry_policy:
  assumes "validateSettings st = None" and "int k \<le> maxRetries st"
    and "\<forall>j<k. \<exists>e. callApi j = Inl e \<and> isRetryable sigs e"
    and "(\<exists>u. callApi k = Inr u)
         \<or> (\<exists>e. callApi k = Inl e \<and> (\<not> isRetryable sigs e \<or> int k = maxRetries st))"
  shows "generateImageWithRetry sigs st callApi
           = (thrown (callApi k), retryTrace (maxRetries st) (retryDelay st) 0 k)
       \<and> (status \<in> {429, 502, 503, 504}
            \<longrightarrow> isRetryable retrySignatures (Some (apiErrorMessage status body)))"
proof -
  have "generateImageWithRetry sigs st callApi
           = (thrown (callApi k), retryTrace (maxRetries st) (retryDelay st) 0 k)"
    unfolding generateImageWithRetry_def
    using retryLoop_closed[of k "maxRetries st" 0 callApi sigs "retryDelay st" None "[]"] assms
    by simp
  moreover have "status \<in> {429, 502, 503, 504}
            \<longrightarrow> isRetryable retrySignatures (Some (apiErrorMessage status body))"
    using status_retryable[of status body] by auto
  ultimately show ?thesis by blast
qed

lemmas retry_defs =
  retrySettings_def unavailable_def badRequest_def twoFailures_def oneBadRequest_def
  apiErrorMessage_def showNat.simps retrySignatures_def isRetryable_def validateSettings_def
  generateImageWithRetry_def thrown_def retryTrace_def

lemma unavailable_retryable: "isRetryable retrySignatures (Some unavailable)"
  by (simp add: retry_defs includesStr_def indexOf_def startsWithAt_def u16_def)

theorem retry_policy_witness:
  "validateSettings retrySettings = None \<and> maxRetries retrySettings = 2
   \<and> twoFailures 0 = Inl (Some unavailable) \<and> isRetryable retrySignatures (Some unavailable)
   \<and> twoFailures 1 = Inl (Some unavailable)
   \<and> twoFailures 2 = Inr (u16 ''data:image/png;base64,QUJD'')
   \<and> generateImageWithRetry retrySignatures retrySettings twoFailures
       = (Inr (u16 ''data:image/png;base64,QUJD''),
          [StatusUpdate (Generating 0 2), ApiCall 0, StatusUpdate (RetryIn 1000), Sleep 1000,
           StatusUpdate (Generating 1 2), ApiCall 1, StatusUpdate (RetryIn 2000), Sleep 2000,
           StatusUpdate (Generating 2 2), ApiCall 2])"
proof -
  have v: "validateSettings retrySettings = None"
    by (simp add: retrySettings_def validateSettings_def u16_def)
  have m: "int 2 \<le> maxRetries retrySettings" "maxRetries retrySettings = 2"
    by (simp_all add: retrySettings_def)
  have f: "\<forall>j<2. \<exists>e. twoFailures j = Inl e \<and> isRetryable retrySignatures e"
    using unavailable_retryable by (simp add: twoFailures_def)
  have s: "(\<exists>u. twoFailures 2 = Inr u)
         \<or> (\<exists>e. twoFailures 2 = Inl e \<and> (\<not> isRetryable retrySignatures e \<or> int 2 = maxRetries retrySettings))"
    by (simp add: twoFailures_def)
  have tr: "retryTrace 2 1000 0 2 =
          [StatusUpdate (Generating 0 2), ApiCall 0, StatusUpdate (RetryIn 1000), Sleep 1000,
           StatusUpdate (Generating 1 2), ApiCall 1, StatusUpdate (RetryIn 2000), Sleep 2000,
           StatusUpdate (Generating 2 2), ApiCall 2]"
    by (simp add: retryTrace_def upt_conv_Cons)
  have d: "retryDelay retrySettings = 1000" by (simp add: retrySettings_def)
  have t: "twoFailures 0 = Inl (Some unavailable)" "twoFailures 1 = Inl (Some unavailable)"
    "twoFailures 2 = Inr (u16 ''data:image/png;base64,QUJD'')"
    by (simp_all add: twoFailures_def)
  show ?thesis
    using v m(2) unavailable_retryable tr t
      retry_policy[OF v m(1) f s, of 0 "[]"]
    by (simp add: thrown_def d)
qed

lemma badRequest_retryable: "isRetryable retrySignatures (Some badRequest)"
  by (simp add: retry_defs includesStr_def indexOf_def startsWithAt_def u16_def)

text \<open>
  Claim C4, as stated, fails: the failure of a request with status 400 whose
  body contains the digits 503, and neither \<^verbatim>\<open>network\<close> nor \<^verbatim>\<open>timeout\<close>, is
  retried. \<open>isRetryable\<close> looks for substrings of the message, not at the status.
\<close>

theorem retry_by_substring_counterexample:
  "badRequest = apiErrorMessage 400 (u16 ''request 5030 rejected'')
   \<and> \<not> includesStr badRequest (u16 ''network'') \<and> \<not> includesStr badRequest (u16 ''timeout'')
   \<and> generateImageWithRetry retrySignatures retrySettings oneBadRequest
       = (Inr (u16 ''data:image/png;base64,QUJD''),
          [StatusUpdate (Generating 0 2), ApiCall 0, StatusUpdate (RetryIn 1000), Sleep 1000,
           StatusUpdate (Generating 1 2), ApiCall 1])"
proof -
  have n: "\<not> includesStr badRequest (u16 ''network'')" "\<not> includesStr badRequest (u16 ''timeout'')"
    by (simp_all add: retry_defs includesStr_def indexOf_def startsWithAt_def u16_def)
  have v: "validateSettings retrySettings = None"
    by (simp add: retrySettings_def validateSettings_def u16_def)
  have f: "\<forall>j. 0 \<le> j \<and> j < 1 \<longrightarrow> (\<exists>e. oneBadRequest j = Inl e \<and> isRetryable retrySignatures e)"
    using badRequest_retryable by (simp add: oneBadRequest_def)
  have s: "(\<exists>u. oneBadRequest 1 = Inr u)
         \<or> (\<exists>e. oneBadRequest 1 = Inl e \<and> (\<not> isRetryable retrySignatures e \<or> int 1 = 2))"
    by (simp add: oneBadRequest_def)
  have tr: "retryTrace 2 1000 0 1 =
          [StatusUpdate (Generating 0 2), ApiCall 0, StatusUpdate (RetryIn 1000), Sleep 1000,
           StatusUpdate (Generating 1 2), ApiCall 1]"
    by (simp add: retryTrace_def upt_conv_Cons)
  have "retryLoop retrySignatures 2 1000 oneBadRequest 0 None []
          = (thrown (oneBadRequest 1), [] @ retryTrace 2 1000 0 1)"
    by (rule retryLoop_closed[OF _ _ f s]) simp_all
  then have "generateImageWithRetry retrySignatures retrySettings oneBadRequest
       = (Inr (u16 ''data:image/png;base64,QUJD''),
          [StatusUpdate (Generating 0 2), ApiCall 0, StatusUpdate (RetryIn 1000), Sleep 1000,
           StatusUpdate (Generating 1 2), ApiCall 1])"
    unfolding generateImageWithRetry_def v tr
    by (simp add: retrySettings_def oneBadRequest_def thrown_def)
  with n show ?thesis by (simp add: badRequest_def)
qed

section \<open>An answer without a picture\<close>

lemmas gemini_defs =
  linkIn_def textPart_def answer_def linkAnswer_def refusalAnswer_def textAnswer_def
  emptyAnswer_def noDownload_def generateImageGemini_def generateImageGeminiCopy_def
  linkTarget_def isLineTerminator_def urlHere_def isSpace_def u16_def substring_def
  refusalMessage_def textOnlyMessage_def noImageNoTextMessage_def chDQuote_def

lemma e1: "generateImageGeminiCopy noDownload (HttpOk linkAnswer) = Inr (u16 ''https://x.test/cat.png'')"
  by (simp add: gemini_defs)
lemma e2: "generateImageGeminiCopy noDownload (HttpOk refusalAnswer) = Inl (Some (refusalMessage (u16 ''SAFETY'') (u16 ''I cannot draw that.'')))"
  by (simp add: gemini_defs)
lemma e3: "generateImageGeminiCopy noDownload (HttpOk textAnswer) = Inl (Some (textOnlyMessage (u16 ''A cat sits on a mat.'')))"
  by (simp add: gemini_defs)
lemma e4: "generateImageGeminiCopy noDownload (HttpOk emptyAnswer) = Inl (Some noImageNoTextMessage)"
  by (simp add: gemini_defs)

text \<open>
  Claim C7, as stated, fails on \<^verbatim>\<open>generateImageGemini\<close> of \<^verbatim>\<open>index.js\<close>: it has no
  fallback and one failure message. An answer whose text links a picture
  fails, and a refusal, a plain text and an answer with no part fail with the
  same message.
\<close>

theorem gemini_fallback_counterexample:
  "generateImageGemini (HttpOk linkAnswer) = Inl (Some (u16 ''No image found in Gemini response''))
   \<and> generateImageGemini (HttpOk refusalAnswer) = generateImageGemini (HttpOk emptyAnswer)
   \<and> generateImageGemini (HttpOk textAnswer) = generateImageGemini (HttpOk emptyAnswer)"
  by (simp add: gemini_defs)

lemma messages_distinct:
  "refusalMessage fr t \<noteq> textOnlyMessage t'"
  "refusalMessage fr t \<noteq> noImageNoTextMessage"
  "textOnlyMessage t' \<noteq> noImageNoTextMessage"
  by (simp_all add: refusalMessage_def textOnlyMessage_def noImageNoTextMessage_def)

lemma refusal_contains:
  "includesStr (refusalMessage fr t) fr \<and> includesStr (refusalMessage fr t) (substring t 0 100)"
proof -
  have "includesStr (refusalMessage fr t) fr"
    unfolding refusalMessage_def by (rule includesStr_append)
  moreover have "refusalMessage fr t = 
     ([1054, 1090, 1082, 1072, 1079, 32, 1075, 1077, 1085, 1077, 1088, 1072, 1094, 1080, 1080, 32, 40]
       @ fr @ u16 ''): '' @ [chDQuote]) @ substring t 0 100 @ (u16 ''...'' @ [chDQuote])"
    by (simp add: refusalMessage_def)
  then have "includesStr (refusalMessage fr t) (substring t 0 100)"
    by (simp only: includesStr_append)
  ultimately show ?thesis by blast
qed

lemma textOnly_contains: "includesStr (textOnlyMessage t) (substring t 0 100)"
  unfolding textOnlyMessage_def by (rule includesStr_append)

text \<open>
  Claim C7, amended. For a successful answer whose first candidate carries no
  inline data under either name, \<^verbatim>\<open>generateImageGemini\<close> of the second copy of
  the module reads the first non-empty text part. If it holds a markdown
  picture link or a bare URL, the call succeeds: with the downloaded picture
  as a data URL, or, when the download fails, with the URL itself. If it holds
  no link, the call fails with a message that quotes the first 100 characters
  of the text, and that names the finish reason when there is one other than
  \<^verbatim>\<open>STOP\<close>. Without a text part it fails with the generic message. The three
  messages differ from each other whatever the reason and the text are.
  \<^verbatim>\<open>generateImageGemini\<close> of \<^verbatim>\<open>index.js\<close> fails on all these answers with its one
  message.
\<close>

theorem gemini_no_image:
  assumes "candidates result = Some (c # cs)"
    and "firstInlineImage (case contentParts c of Some ps \<Rightarrow> ps | None \<Rightarrow> []) = None"
  shows
   "(\<forall>t u. firstText (case contentParts c of Some ps \<Rightarrow> ps | None \<Rightarrow> []) = Some t \<and> linkIn t = Some u
        \<longrightarrow> generateImageGeminiCopy download (HttpOk result)
             = Inr (case download u of
                      Some b \<Rightarrow> if b \<noteq> [] then u16 ''data:image/jpeg;base64,'' @ b else u
                    | None \<Rightarrow> u))
    \<and> (\<forall>t. firstText (case contentParts c of Some ps \<Rightarrow> ps | None \<Rightarrow> []) = Some t \<and> linkIn t = None
        \<longrightarrow> (\<exists>m. generateImageGeminiCopy download (HttpOk result) = Inl (Some m)
                 \<and> includesStr m (substring t 0 100)
                 \<and> (m = textOnlyMessage t
                      \<or> (\<exists>fr. finishReason c = Some fr \<and> fr \<noteq> [] \<and> fr \<noteq> u16 ''STOP''
                              \<and> m = refusalMessage fr t \<and> includesStr m fr))
                 \<and> (m = textOnlyMessage t
                      \<longleftrightarrow> finishReason c \<in> {None, Some [], Some (u16 ''STOP'')})))
    \<and> (firstText (case contentParts c of Some ps \<Rightarrow> ps | None \<Rightarrow> []) = None
        \<longrightarrow> generateImageGeminiCopy download (HttpOk result) = Inl (Some noImageNoTextMessage))
    \<and> refusalMessage fr t \<noteq> textOnlyMessage t'
    \<and> refusalMessage fr t \<noteq> noImageNoTextMessage
    \<and> textOnlyMessage t' \<noteq> noImageNoTextMessage
    \<and> generateImageGemini (HttpOk result) = Inl (Some (u16 ''No image found in Gemini response''))"
proof -
  let ?ps = "case contentParts c of Some ps \<Rightarrow> ps | None \<Rightarrow> []"
  have a: "\<forall>t u. firstText ?ps = Some t \<and> linkIn t = Some u
        \<longrightarrow> generateImageGeminiCopy download (HttpOk result)
             = Inr (case download u of
                      Some b \<Rightarrow> if b \<noteq> [] then u16 ''data:image/jpeg;base64,'' @ b else u
                    | None \<Rightarrow> u)"
    using assms
    by (auto simp: generateImageGeminiCopy_def linkIn_def Let_def split: option.splits)
  have b: "\<forall>t. firstText ?ps = Some t \<and> linkIn t = None
        \<longrightarrow> (\<exists>m. generateImageGeminiCopy download (HttpOk result) = Inl (Some m)
                 \<and> includesStr m (substring t 0 100)
                 \<and> (m = textOnlyMessage t
                      \<or> (\<exists>fr. finishReason c = Some fr \<and> fr \<noteq> [] \<and> fr \<noteq> u16 ''STOP''
                              \<and> m = refusalMessage fr t \<and> includesStr m fr))
                 \<and> (m = textOnlyMessage t
                      \<longleftrightarrow> finishReason c \<in> {None, Some [], Some (u16 ''STOP'')}))"
  proof (intro allI impI)
    fix t assume h: "firstText ?ps = Some t \<and> linkIn t = None"
    show "\<exists>m. generateImageGeminiCopy download (HttpOk result) = Inl (Some m)
                 \<and> includesStr m (substring t 0 100)
                 \<and> (m = textOnlyMessage t
                      \<or> (\<exists>fr. finishReason c = Some fr \<and> fr \<noteq> [] \<and> fr \<noteq> u16 ''STOP''
                              \<and> m = refusalMessage fr t \<and> includesStr m fr))
                 \<and> (m = textOnlyMessage t
                      \<longleftrightarrow> finishReason c \<in> {None, Some [], Some (u16 ''STOP'')})"
    proof (cases "\<exists>fr. finishReason c = Some fr \<and> fr \<noteq> [] \<and> fr \<noteq> u16 ''STOP''")
      case True
      then obtain fr where fr: "finishReason c = Some fr" "fr \<noteq> []" "fr \<noteq> u16 ''STOP''" by blast
      have "generateImageGeminiCopy download (HttpOk result) = Inl (Some (refusalMessage fr t))"
        using assms h fr
        by (auto simp: generateImageGeminiCopy_def linkIn_def Let_def split: option.splits)
      then show ?thesis
        using fr refusal_contains[of fr t] messages_distinct(1)[of fr t t] by auto
    next
      case False
      then have "generateImageGeminiCopy download (HttpOk result) = Inl (Some (textOnlyMessage t))"
        using assms h
        by (auto simp: generateImageGeminiCopy_def linkIn_def Let_def split: option.splits)
      then show ?thesis
        using False textOnly_contains[of t] by (cases "finishReason c") auto
    qed
  qed
  have c: "firstText ?ps = None
        \<longrightarrow> generateImageGeminiCopy download (HttpOk result) = Inl (Some noImageNoTextMessage)"
    using assms
    by (auto simp: generateImageGeminiCopy_def Let_def split: option.splits)
  have d: "generateImageGemini (HttpOk result) = Inl (Some (u16 ''No image found in Gemini response''))"
    using assms by (simp add: generateImageGemini_def)
  from a b c d messages_distinct(1)[of fr t t'] messages_distinct(2)[of fr t]
    messages_distinct(3)[of t']
  show ?thesis by blast
qed

theorem gemini_no_image_witness:
  "generateImageGeminiCopy noDownload (HttpOk linkAnswer) = Inr (u16 ''https://x.test/cat.png'')
   \<and> generateImageGeminiCopy noDownload (HttpOk refusalAnswer)
       = Inl (Some (refusalMessage (u16 ''SAFETY'') (u16 ''I cannot draw that.'')))
   \<and> generateImageGeminiCopy noDownload (HttpOk textAnswer)
       = Inl (Some (textOnlyMessage (u16 ''A cat sits on a mat.'')))
   \<and> generateImageGeminiCopy noDownload (HttpOk emptyAnswer) = Inl (Some noImageNoTextMessage)
   \<and> generateImageGemini (HttpOk refusalAnswer)
       = Inl (Some (u16 ''No image found in Gemini response''))"
proof -
  let ?c = "\<lparr>contentParts = Some [textPart (u16 ''I cannot draw that.'')],
             finishReason = Some (u16 ''SAFETY'')\<rparr>"
  have h1: "candidates refusalAnswer = Some (?c # [])"
    by (simp add: refusalAnswer_def answer_def)
  have h2: "firstInlineImage (case contentParts ?c of Some ps \<Rightarrow> ps | None \<Rightarrow> []) = None"
    by (simp add: textPart_def)
  have "generateImageGemini (HttpOk refusalAnswer)
       = Inl (Some (u16 ''No image found in Gemini response''))"
    using gemini_no_image[OF h1 h2] by blast
  then show ?thesis
    using e1 e2 e3 e4 by simp
qed

section \<open>Tags as slices of the text\<close>

lemma makeTag_fields:
  "makeTag d fm idx n s = Some t \<Longrightarrow> fullMatch t = fm \<and> index t = idx \<and> isNewFormat t = n"
  by (auto simp: makeTag_def split: if_splits)

lemma parseTag_fields:
  "parseTag j fm idx n s = Some t \<Longrightarrow> fullMatch t = fm \<and> index t = idx \<and> isNewFormat t = n"
  by (auto simp: parseTag_def split: parsed.splits dest: makeTag_fields)

lemma substring_slice:
  "a \<le> b \<Longrightarrow> b \<le> length s \<Longrightarrow>
   substring s a b = take (b - a) (drop a s) \<and> length (substring s a b) = b - a"
  by (auto simp: substring_def Let_def min_def max_def)

lemma markupIter_alt:
  "markupIter f os tx sp ps =
     (case indexOf tx imgTagMarker sp of
        None \<Rightarrow> (Break, ps)
      | Some markerPos \<Rightarrow>
          (case markupCandidate tx markerPos of
             None \<Rightarrow> (Continue (markerPos + 1) None, ps)
           | Some (imgStart, jsonStart, jsonEnd, imgEnd) \<Rightarrow>
               markupDecide f os tx imgStart jsonStart jsonEnd imgEnd ps))"
proof (cases "indexOf tx imgTagMarker sp")
  case None
  then show ?thesis by (simp add: markupIter_def)
next
  case (Some markerPos)
  note m = this
  show ?thesis
  proof (cases "lastIndexOf tx (u16 ''<img'') markerPos")
    case None
    with m show ?thesis by (simp add: markupIter_def markupCandidate_def)
  next
    case (Some imgStart)
    note i = this
    show ?thesis
    proof (cases "indexOf tx [chLBrace] (markerPos + length imgTagMarker)")
      case None
      with m i show ?thesis by (simp add: markupIter_def markupCandidate_def Let_def)
    next
      case (Some jsonStart)
      note js = this
      show ?thesis
      proof (cases "findJsonEnd tx jsonStart")
        case None
        with m i js show ?thesis by (simp add: markupIter_def markupCandidate_def Let_def)
      next
        case (Some jsonEnd)
        note je = this
        show ?thesis
        proof (cases "indexOf tx [chGt] jsonEnd")
          case None
          with m i js je show ?thesis
            by (simp add: markupIter_def markupCandidate_def Let_def)
        next
          case (Some gtPos)
          with m i js je show ?thesis
            by (simp add: markupIter_def markupCandidate_def markupDecide_def markupSrc_def
                  Let_def split: prod.splits)
        qed
      qed
    qed
  qed
qed

lemma markupDecide_tag:
  assumes "markupDecide f os tx a b c d ps = (Continue p (Some t), ps')"
  shows "p = d \<and> fullMatch t = substring tx a d \<and> index t = a \<and> isNewFormat t"
proof (cases "fst (needsGeneration f os (markupSrc tx a d) ps)")
  case False
  with assms show ?thesis by (simp add: markupDecide_def)
next
  case True
  with assms have p: "p = d"
    and pt: "parseTag (decodeEntities (substring tx b c)) (substring tx a d) a True
           (if hasPath (markupSrc tx a d) then Some (markupSrc tx a d) else None) = Some t"
    by (auto simp: markupDecide_def)
  from parseTag_fields[OF pt] p show ?thesis by simp
qed

lemma markupIter_tag:
  assumes "markupIter f os tx sp ps = (Continue p (Some t), ps')"
  shows "isNewFormat t \<and> index t < p \<and> p \<le> length tx \<and> tagEnd t = p \<and> isSlice tx t"
proof -
  from assms obtain markerPos where m: "indexOf tx imgTagMarker sp = Some markerPos"
    unfolding markupIter_alt by (auto split: option.splits)
  from assms m obtain imgStart jsonStart jsonEnd imgEnd where
    c: "markupCandidate tx markerPos = Some (imgStart, jsonStart, jsonEnd, imgEnd)"
    unfolding markupIter_alt by (auto split: option.splits)
  from assms m c have d: "markupDecide f os tx imgStart jsonStart jsonEnd imgEnd ps = (Continue p (Some t), ps')"
    unfolding markupIter_alt by simp
  from markupDecide_tag[OF d] have p: "p = imgEnd"
    and f: "fullMatch t = substring tx imgStart imgEnd" "index t = imgStart" "isNewFormat t"
    by simp_all
  from markupCandidate_bounds[OF c]
  have le: "imgStart \<le> imgEnd" "imgStart < imgEnd" "imgEnd \<le> length tx" by simp_all
  from substring_slice[OF le(1) le(3)] f le p
  show ?thesis by (simp add: isSlice_def tagEnd_def)
qed

lemma legacyIter_tag:
  assumes "legacyIter tx ss = Continue p (Some t)"
  shows "\<not> isNewFormat t \<and> ss \<le> index t \<and> index t < p \<and> p \<le> length tx \<and> tagEnd t = p \<and> isSlice tx t"
proof -
  from assms obtain markerIndex where m: "indexOf tx legacyMarker ss = Some markerIndex"
    unfolding legacyIter_def by (auto split: option.splits)
  from assms m obtain jsonEnd where je: "findJsonEnd tx (markerIndex + 9) = Some jsonEnd"
    unfolding legacyIter_def by (cases "findJsonEnd tx (markerIndex + 9)") (auto simp: Let_def legacyMarker_len)
  from assms m je have
    pt: "parseTag (replaceAll [chSQuote] [chDQuote] (substring tx (markerIndex + 9) jsonEnd))
           (substring tx markerIndex (jsonEnd + 1)) markerIndex False None = Some t"
    and p: "p = jsonEnd + 1"
    unfolding legacyIter_def by (auto simp: Let_def legacyMarker_len split: if_splits)
  from legacyIter_advances[OF assms] p have pl: "jsonEnd + 1 \<le> length tx" by simp
  have ne: "legacyMarker \<noteq> []" using legacyMarker_len by auto
  from indexOf_Some_ne[OF m ne] have a: "ss \<le> markerIndex" by simp
  from findJsonEnd_bounds[OF je] have c: "markerIndex + 9 < jsonEnd" by simp
  have le: "markerIndex \<le> jsonEnd + 1" using c by simp
  from parseTag_fields[OF pt] have f: "fullMatch t = substring tx markerIndex (jsonEnd + 1)"
    "index t = markerIndex" "\<not> isNewFormat t" by simp_all
  from substring_slice[OF le pl] f a c p pl
  show ?thesis by (simp add: isSlice_def tagEnd_def)
qed

lemma markupLoop_tags:
  "\<exists>new. fst (markupLoop f os tx sp tgs ps) = tgs @ new
         \<and> (\<forall>t \<in> set new. isNewFormat t \<and> isSlice tx t)"
proof (induction f os tx sp tgs ps rule: markupLoop.induct)
  case (1 f os tx sp tgs ps)
  show ?case
  proof (cases "markupIter f os tx sp ps")
    case (Pair it ps')
    show ?thesis
    proof (cases it)
      case Break
      with Pair show ?thesis by (simp add: markupLoop.simps[of f os tx sp])
    next
      case (Continue p t)
      from "1.IH"[OF Pair[symmetric] Continue]
      obtain new where n: "fst (markupLoop f os tx p (case t of None \<Rightarrow> tgs | Some x \<Rightarrow> tgs @ [x]) ps')
          = (case t of None \<Rightarrow> tgs | Some x \<Rightarrow> tgs @ [x]) @ new"
        and a: "\<forall>t \<in> set new. isNewFormat t \<and> isSlice tx t" by blast
      have eq: "markupLoop f os tx sp tgs ps
                = markupLoop f os tx p (case t of None \<Rightarrow> tgs | Some x \<Rightarrow> tgs @ [x]) ps'"
        using Pair Continue by (simp add: markupLoop.simps[of f os tx sp])
      show ?thesis
      proof (cases t)
        case None
        with n a eq show ?thesis by auto
      next
        case (Some x)
        from markupIter_tag[of f os tx sp ps p x ps'] Pair Continue Some
        have "isNewFormat x \<and> isSlice tx x" by simp
        with n a eq Some show ?thesis by (intro exI[of _ "x # new"]) auto
      qed
    qed
  qed
qed

lemma legacyLoop_tags:
  "\<exists>new. legacyLoop tx ss tgs = tgs @ new
         \<and> (\<forall>t \<in> set new. \<not> isNewFormat t \<and> isSlice tx t \<and> ss \<le> index t)
         \<and> sorted_wrt (\<lambda>a b. tagEnd a \<le> index b) new"
proof (induction tx ss tgs rule: legacyLoop.induct)
  case (1 tx ss tgs)
  show ?case
  proof (cases "legacyIter tx ss")
    case Break
    then show ?thesis by (simp add: legacyLoop.simps[of tx ss])
  next
    case (Continue p t)
    from "1.IH"[OF Continue]
    obtain new where n: "legacyLoop tx p (case t of None \<Rightarrow> tgs | Some x \<Rightarrow> tgs @ [x])
          = (case t of None \<Rightarrow> tgs | Some x \<Rightarrow> tgs @ [x]) @ new"
      and a: "\<forall>t \<in> set new. \<not> isNewFormat t \<and> isSlice tx t \<and> p \<le> index t"
      and s: "sorted_wrt (\<lambda>a b. tagEnd a \<le> index b) new" by blast
    have eq: "legacyLoop tx ss tgs
                = legacyLoop tx p (case t of None \<Rightarrow> tgs | Some x \<Rightarrow> tgs @ [x])"
      using Continue by (simp add: legacyLoop.simps[of tx ss])
    from legacyIter_advances[OF Continue] have adv: "ss < p" by simp
    show ?thesis
    proof (cases t)
      case None
      with n a s eq adv show ?thesis by (intro exI[of _ new]) auto
    next
      case (Some x)
      from legacyIter_tag[of tx ss p x] Continue Some
      have x: "\<not> isNewFormat x" "isSlice tx x" "ss \<le> index x" "tagEnd x = p" by simp_all
      with n a s eq Some adv show ?thesis
        by (intro exI[of _ "x # new"]) auto
    qed
  qed
qed

text \<open>
  Claim C9, as stated, fails: the two families are scanned independently over
  the same text, so a legacy marker quoted inside the prompt of a markup tag
  is returned as a tag of its own, inside the range of the markup tag (offsets
  38 to 50 inside 0 to 70). Within the markup family, an instruction attribute
  that follows an element without a new element in between is attached to the
  preceding element again, and the two tags share their start.
\<close>

theorem tag_ranges_counterexample:
  "map (\<lambda>t. (index t, tagEnd t))
     (fst (parseImageTags (\<lambda>k p. NetworkError) nestedImg defaultMode)) = [(0, 70), (38, 50)]
   \<and> map (\<lambda>t. (index t, tagEnd t))
       (fst (parseImageTags (\<lambda>k p. NetworkError) danglingAttr defaultMode)) = [(0, 59), (0, 99)]"
  by (simp add: nestedImg_def danglingAttr_def defaultMode_def scan_defs ch_defs json_defs
        tagEnd_def)

text \<open>
  Claim C9, amended. For every text, every tag of a run is a slice of the
  text: its \<open>fullMatch\<close> is the contiguous part of the text that starts at its
  \<open>index\<close>. The tags of the legacy family come in the order of the text, and
  each starts at or after the end of the one before: no two of them
  intersect.
\<close>

theorem tag_ranges:
  "(\<forall>t \<in> set (fst (parseImageTags f tx os)). isSlice tx t)
   \<and> sorted_wrt (\<lambda>a b. tagEnd a \<le> index b)
        (filter (\<lambda>t. \<not> isNewFormat t) (fst (parseImageTags f tx os)))"
proof -
  obtain mt ps where ml: "markupLoop f os tx 0 [] [] = (mt, ps)"
    by (cases "markupLoop f os tx 0 [] []")
  from markupLoop_tags[of f os tx 0 "[]" "[]"] ml
  have m: "\<forall>t \<in> set mt. isNewFormat t \<and> isSlice tx t" by simp
  from legacyLoop_tags[of tx 0 mt]
  obtain new where n: "legacyLoop tx 0 mt = mt @ new"
    and a: "\<forall>t \<in> set new. \<not> isNewFormat t \<and> isSlice tx t \<and> 0 \<le> index t"
    and s: "sorted_wrt (\<lambda>a b. tagEnd a \<le> index b) new" by blast
  have tags: "fst (parseImageTags f tx os) = mt @ new"
    using ml n by (simp add: parseImageTags_def)
  have "filter (\<lambda>t. \<not> isNewFormat t) (mt @ new) = new"
    using m a by (auto simp: filter_empty_conv filter_id_conv)
  with tags m a s show ?thesis by auto
qed

theorem tag_ranges_witness:
  "map (\<lambda>t. (index t, tagEnd t))
     (fst (parseImageTags (\<lambda>k p. NetworkError) mixedText defaultMode)) = [(6, 65), (70, 123)]
   \<and> list_all (isSlice mixedText) (fst (parseImageTags (\<lambda>k p. NetworkError) mixedText defaultMode))
   \<and> sorted_wrt (\<lambda>a b. tagEnd a \<le> index b)
        (filter (\<lambda>t. \<not> isNewFormat t)
           (fst (parseImageTags (\<lambda>k p. NetworkError) mixedText defaultMode)))"
proof -
  have e: "map (\<lambda>t. (index t, tagEnd t))
     (fst (parseImageTags (\<lambda>k p. NetworkError) mixedText defaultMode)) = [(6, 65), (70, 123)]"
    by (simp add: mixedText_def defaultMode_def scan_defs ch_defs json_defs tagEnd_def)
  show ?thesis
    using e tag_ranges[of "\<lambda>k p. NetworkError" mixedText defaultMode]
    by (simp add: list_all_iff)
qed

section \<open>The scanner and the network\<close>

text \<open>The markup loop is a fold of the decision over the elements it visits.\<close>

lemma markupLoop_elements:
  "markupLoop f os tx sp tgs ps = fold (elementStep f os tx) (markupElements tx sp) (tgs, ps)"
proof (induction f os tx sp tgs ps rule: markupLoop.induct)
  case (1 f os tx sp tgs ps)
  show ?case
  proof (cases "indexOf tx imgTagMarker sp")
    case None
    then show ?thesis
      by (simp add: markupLoop.simps[of f os tx sp] markupIter_alt markupElements.simps[of tx sp])
  next
    case (Some markerPos)
    note m = this
    show ?thesis
    proof (cases "markupCandidate tx markerPos")
      case None
      with m have it: "markupIter f os tx sp ps = (Continue (markerPos + 1) None, ps)"
        by (simp add: markupIter_alt)
      from "1.IH"[OF it[symmetric] refl] it m None show ?thesis
        by (simp add: markupLoop.simps[of f os tx sp] markupElements.simps[of tx sp])
    next
      case (Some c)
      obtain a js je e where c: "c = (a, js, je, e)" by (cases c) auto
      obtain it ps' where d: "markupDecide f os tx a js je e ps = (it, ps')"
        by (cases "markupDecide f os tx a js je e ps")
      from d obtain t where it: "it = Continue e t"
        by (auto simp: markupDecide_def split: if_splits)
      from m Some c d it have mi: "markupIter f os tx sp ps = (Continue e t, ps')"
        by (simp add: markupIter_alt)
      from "1.IH"[OF mi[symmetric] refl] mi m Some c d it show ?thesis
        by (cases t) (simp_all add: markupLoop.simps[of f os tx sp] markupElements.simps[of tx sp]
              elementStep_def)
    qed
  qed
qed

lemma needsGeneration_probes:
  "snd (needsGeneration f os v ps) = ps @ filter (probed os) [v]"
  by (auto simp: needsGeneration_def probed_def hasPath_def)

lemma elementStep_probes:
  "snd (elementStep f os tx el (tgs, ps))
     = ps @ filter (probed os) [elementSrc tx el]"
proof -
  obtain a js je e where el: "el = (a, js, je, e)" by (cases el) auto
  have "snd (markupDecide f os tx a js je e ps) = snd (needsGeneration f os (markupSrc tx a e) ps)"
    by (simp add: markupDecide_def)
  then have "snd (elementStep f os tx el (tgs, ps)) = snd (needsGeneration f os (markupSrc tx a e) ps)"
    unfolding elementStep_def el
    by (cases "markupDecide f os tx a js je e ps") (auto split: iter.splits option.splits)
  then show ?thesis
    by (simp only: needsGeneration_probes el elementSrc_def prod.case)
qed

lemma fold_elements_probes:
  "snd (fold (elementStep f os tx) els (tgs, ps))
     = ps @ filter (probed os) (map (elementSrc tx) els)"
proof (induction els arbitrary: tgs ps)
  case Nil
  then show ?case by simp
next
  case (Cons el els)
  obtain tgs' ps' where s: "elementStep f os tx el (tgs, ps) = (tgs', ps')"
    by (cases "elementStep f os tx el (tgs, ps)")
  with elementStep_probes[of f os tx el tgs ps]
  have "ps' = ps @ filter (probed os) [elementSrc tx el]" by simp
  with Cons.IH[of tgs' ps'] s show ?case by simp
qed


lemma needsGeneration_answers:
  assumes "probed os v \<longrightarrow> f1 (length ps) v = f2 (length ps) v"
  shows "needsGeneration f1 os v ps = needsGeneration f2 os v ps"
  using assms by (auto simp: needsGeneration_def probed_def)

lemma elementStep_answers:
  assumes "probed os (elementSrc tx el) \<longrightarrow> f1 (length ps) (elementSrc tx el) = f2 (length ps) (elementSrc tx el)"
  shows "elementStep f1 os tx el (tgs, ps) = elementStep f2 os tx el (tgs, ps)"
proof -
  obtain a js je e where el: "el = (a, js, je, e)" by (cases el) auto
  from assms have "needsGeneration f1 os (markupSrc tx a e) ps = needsGeneration f2 os (markupSrc tx a e) ps"
    by (intro needsGeneration_answers) (simp add: el elementSrc_def)
  then have "markupDecide f1 os tx a js je e ps = markupDecide f2 os tx a js je e ps"
    by (simp add: markupDecide_def)
  then show ?thesis by (simp add: elementStep_def el)
qed

lemma fold_elements_answers:
  assumes "\<forall>k. length ps \<le> k \<and> k < length (ps @ filter (probed os) (map (elementSrc tx) els))
             \<longrightarrow> f1 k ((ps @ filter (probed os) (map (elementSrc tx) els)) ! k)
                 = f2 k ((ps @ filter (probed os) (map (elementSrc tx) els)) ! k)"
  shows "fold (elementStep f1 os tx) els (tgs, ps) = fold (elementStep f2 os tx) els (tgs, ps)"
  using assms
proof (induction els arbitrary: tgs ps)
  case Nil
  then show ?case by simp
next
  case (Cons el els)
  let ?v = "elementSrc tx el"
  have one: "probed os ?v \<longrightarrow> f1 (length ps) ?v = f2 (length ps) ?v"
  proof
    assume p: "probed os ?v"
    with Cons.prems[rule_format, of "length ps"] show "f1 (length ps) ?v = f2 (length ps) ?v"
      by (simp add: nth_append)
  qed
  have e: "elementStep f1 os tx el (tgs, ps) = elementStep f2 os tx el (tgs, ps)"
    using one by (rule elementStep_answers)
  obtain tgs' ps' where s: "elementStep f2 os tx el (tgs, ps) = (tgs', ps')"
    by (cases "elementStep f2 os tx el (tgs, ps)")
  with elementStep_probes[of f2 os tx el tgs ps]
  have ps': "ps' = ps @ filter (probed os) [?v]" by simp
  have "fold (elementStep f1 os tx) els (tgs', ps') = fold (elementStep f2 os tx) els (tgs', ps')"
  proof (rule Cons.IH, intro allI impI)
    fix k
    assume k: "length ps' \<le> k \<and> k < length (ps' @ filter (probed os) (map (elementSrc tx) els))"
    have eq: "ps' @ filter (probed os) (map (elementSrc tx) els)
              = ps @ filter (probed os) (map (elementSrc tx) (el # els))"
      by (simp add: ps')
    have "length ps \<le> k" using k ps' by simp
    with k Cons.prems[rule_format, of k] show
      "f1 k ((ps' @ filter (probed os) (map (elementSrc tx) els)) ! k)
        = f2 k ((ps' @ filter (probed os) (map (elementSrc tx) els)) ! k)"
      unfolding eq by simp
  qed
  with e s show ?case by simp
qed

lemmas element_defs = markupElements.simps markupCandidate_def markupSrc_def elementSrc_def
  probed_def

text \<open>
  Claim C8, as stated, fails: with the existence check the scanner sends a
  HEAD request for the path of a resolved tag, and the tags it returns for one
  text and one set of options differ with the answer.
\<close>

theorem scanner_probe_counterexample:
  "fst (parseImageTags (\<lambda>k p. Response True) resolvedImg normalMode)
     \<noteq> fst (parseImageTags (\<lambda>k p. Response False) resolvedImg normalMode)
   \<and> snd (parseImageTags (\<lambda>k p. Response True) resolvedImg normalMode)
       = [u16 ''/user/images/a.png'']"
  by (simp add: resolvedImg_def normalMode_def scan_defs ch_defs json_defs)

text \<open>
  Claim C8, amended. The scanner takes no rendered message as an argument.
  The requests it sends are, in the order of the text, one for each element
  the markup loop visits whose extracted source is a path on the server (it
  starts with a slash and is longer than 5 characters), holds no marker token
  and is not the error image; and only when the existence check is requested
  and not every tag is forced. Otherwise it sends none, and its result is the
  same whatever the network would answer: a function of the text and the
  options alone. In every case the result depends on the network only through
  the answers to the requests sent: two networks that answer these alike give
  the same tags and the same requests. (An element is visited once for each
  occurrence of the attribute that leads to it, and its source is the first
  match of the source pattern in its text, which may lie inside the payload.)
\<close>

theorem scanner_requests:
  "snd (parseImageTags f1 tx opts)
     = filter (probed opts) (map (elementSrc tx) (markupElements tx 0))
   \<and> (\<not> checkExistence opts \<or> forceAll opts \<longrightarrow>
        parseImageTags f1 tx opts = parseImageTags f2 tx opts
        \<and> snd (parseImageTags f1 tx opts) = [])
   \<and> ((\<forall>k < length (snd (parseImageTags f1 tx opts)).
          f1 k (snd (parseImageTags f1 tx opts) ! k) = f2 k (snd (parseImageTags f1 tx opts) ! k))
        \<longrightarrow> parseImageTags f1 tx opts = parseImageTags f2 tx opts)"
proof -
  let ?P = "filter (probed opts) (map (elementSrc tx) (markupElements tx 0))"
  have pr: "snd (parseImageTags f tx opts) = ?P" for f
    using fold_elements_probes[of f opts tx "markupElements tx 0" "[]" "[]"]
    by (auto simp: parseImageTags_def markupLoop_elements split: prod.splits)
  have dep: "parseImageTags f1 tx opts = parseImageTags f2 tx opts"
    if "\<forall>k < length ?P. f1 k (?P ! k) = f2 k (?P ! k)"
  proof -
    from that have "fold (elementStep f1 opts tx) (markupElements tx 0) ([], [])
          = fold (elementStep f2 opts tx) (markupElements tx 0) ([], [])"
      by (intro fold_elements_answers) simp
    then show ?thesis by (simp add: parseImageTags_def markupLoop_elements)
  qed
  have none: "?P = []" if "\<not> checkExistence opts \<or> forceAll opts"
    using that by (auto simp: filter_empty_conv probed_def)
  show ?thesis
  proof (intro conjI impI)
    show "snd (parseImageTags f1 tx opts) = ?P" by (rule pr)
    show "parseImageTags f1 tx opts = parseImageTags f2 tx opts"
      if "\<not> checkExistence opts \<or> forceAll opts"
      using dep none[OF that] by simp
    show "snd (parseImageTags f1 tx opts) = []" if "\<not> checkExistence opts \<or> forceAll opts"
      using pr none[OF that] by simp
    show "parseImageTags f1 tx opts = parseImageTags f2 tx opts"
      if "\<forall>k < length (snd (parseImageTags f1 tx opts)).
          f1 k (snd (parseImageTags f1 tx opts) ! k) = f2 k (snd (parseImageTags f1 tx opts) ! k)"
      using dep that unfolding pr by simp
  qed
qed

theorem scanner_requests_witness:
  "forceAll forceMode
   \<and> parseImageTags (\<lambda>k p. Response True) resolvedImg forceMode
       = parseImageTags (\<lambda>k p. NetworkError) resolvedImg forceMode
   \<and> snd (parseImageTags (\<lambda>k p. Response True) resolvedImg forceMode) = []
   \<and> map fullMatch (fst (parseImageTags (\<lambda>k p. Response True) resolvedImg forceMode))
       = [resolvedImg]
   \<and> map (elementSrc resolvedImg) (markupElements resolvedImg 0) = [u16 ''/user/images/a.png'']
   \<and> snd (parseImageTags (\<lambda>k p. Response True) resolvedImg normalMode)
       = [u16 ''/user/images/a.png'']
   \<and> parseImageTags (\<lambda>k p. Response True) resolvedImg normalMode
       = parseImageTags (\<lambda>k p. if k = 0 then Response True else NetworkError) resolvedImg normalMode"
proof -
  have h: "\<not> checkExistence forceMode \<or> forceAll forceMode"
    by (simp add: forceMode_def)
  have f: "forceAll forceMode"
    by (simp add: forceMode_def)
  have e: "map fullMatch (fst (parseImageTags (\<lambda>k p. Response True) resolvedImg forceMode))
             = [resolvedImg]"
    by (simp add: resolvedImg_def forceMode_def scan_defs ch_defs json_defs)
  have el: "map (elementSrc resolvedImg) (markupElements resolvedImg 0) = [u16 ''/user/images/a.png'']"
    by (simp add: resolvedImg_def element_defs scan_defs ch_defs)
  have pr: "probed normalMode (u16 ''/user/images/a.png'')"
    by (simp add: probed_def normalMode_def scan_defs ch_defs)
  note a = scanner_requests[of "\<lambda>k p. Response True" resolvedImg forceMode "\<lambda>k p. NetworkError"]
  note b = scanner_requests[of "\<lambda>k p. Response True" resolvedImg normalMode
             "\<lambda>k p. if k = 0 then Response True else NetworkError"]
  from b el pr have p: "snd (parseImageTags (\<lambda>k p. Response True) resolvedImg normalMode)
       = [u16 ''/user/images/a.png'']" by simp
  from b p have d: "parseImageTags (\<lambda>k p. Response True) resolvedImg normalMode
       = parseImageTags (\<lambda>k p. if k = 0 then Response True else NetworkError) resolvedImg normalMode"
    by simp
  from a h have c: "parseImageTags (\<lambda>k p. Response True) resolvedImg forceMode
       = parseImageTags (\<lambda>k p. NetworkError) resolvedImg forceMode"
    "snd (parseImageTags (\<lambda>k p. Response True) resolvedImg forceMode) = []" by blast+
  from f c e el p d show ?thesis by blast
qed

section \<open>Reconciliation of a resolved message\<close>









section \<open>The gate against re-entrance\<close>

lemma unresolved_scan:
  "parseImageTags f unresolvedImg forceMode = ([unresolvedTag], [])
   \<and> parseImageTags f unresolvedImg normalMode = ([unresolvedTag], [])"
  by (simp add: unresolvedImg_def unresolvedTag_def forceMode_def normalMode_def
        scan_defs ch_defs json_defs)

text \<open>
  Claim C6 on the code. While the message 0 is in the set of messages in
  process, a new trigger of \<^verbatim>\<open>processMessageTags\<close> for it is dropped, but
  \<^verbatim>\<open>regenerateMessageImages\<close> never looks at the set: it announces the
  regeneration, runs its loop (whose body finds no element here, the one of
  the tag being replaced by the placeholder of the run in flight), removes the
  message from the set and saves the chat. The gate is open again while the
  first reconciliation is still in flight: the next trigger of
  \<^verbatim>\<open>processMessageTags\<close> for the message processes the tag a second time.
\<close>

theorem regenerate_ignores_gate:
  "0 \<in> processingMessages inFlightWorld
   \<and> processMessageTags f step 0 inFlightWorld = inFlightWorld
   \<and> regenerateMessageImages f regenerateTag 0 inFlightWorld
       = inFlightWorld\<lparr>processingMessages := {}, effects := [ToastInfo, SaveChat]\<rparr>
   \<and> processMessageTags f (processTag generate) 0
        (regenerateMessageImages f regenerateTag 0 inFlightWorld)
       = (let w3 = generate 0 unresolvedTag 0
                     (inFlightWorld\<lparr>processingMessages := {0},
                        effects := [ToastInfo, SaveChat, ToastInfo, DomMutation 0 0]\<rparr>)
          in w3\<lparr>processingMessages := processingMessages w3 - {0},
                 effects := effects w3 @ [SaveChat]\<rparr>)"
proof -
  have a: "0 \<in> processingMessages inFlightWorld" by (simp add: inFlightWorld_def)
  have b: "processMessageTags f step 0 inFlightWorld = inFlightWorld"
    using a by (simp add: processMessageTags_def)
  have c: "regenerateMessageImages f regenerateTag 0 inFlightWorld
       = inFlightWorld\<lparr>processingMessages := {}, effects := [ToastInfo, SaveChat]\<rparr>"
    unfolding regenerateMessageImages_def forceMode_def[symmetric]
    by (simp add: inFlightWorld_def unresolved_scan runTags_def)
  have d: "processMessageTags f (processTag generate) 0
        (inFlightWorld\<lparr>processingMessages := {}, effects := [ToastInfo, SaveChat]\<rparr>)
       = (let w3 = generate 0 unresolvedTag 0
                     (inFlightWorld\<lparr>processingMessages := {0},
                        effects := [ToastInfo, SaveChat, ToastInfo, DomMutation 0 0]\<rparr>)
          in w3\<lparr>processingMessages := processingMessages w3 - {0},
                 effects := effects w3 @ [SaveChat]\<rparr>)"
    unfolding processMessageTags_def normalMode_def[symmetric]
    by (simp add: inFlightWorld_def unresolved_scan runTags_def processTag_def Let_def)
  from a b c d show ?thesis by simp
qed

section \<open>The scanner on well-formed markers\<close>


lemma startsWithAt_appendI:
  "length a = s \<Longrightarrow> startsWithAt (a @ r @ b) r s"
  by (simp add: startsWithAt_def)
















lemma payload_ne: "payload its \<noteq> []"
  by (simp add: payload_def)























end
